theory Spec2Isabelle
  imports Complex_Main
begin

section \<open>Colour conversion helpers of \<open>backend/services/colors.py\<close>\<close>

text \<open>
  An RGB colour is the Python tuple \<open>(r, g, b)\<close> of unbounded integers.  A Python \<open>str\<close> is
  a list of characters; a character stands for the code point of the same number, so the
  model covers the strings whose code points are below 256.
\<close>

type_synonym rgb = "int \<times> int \<times> int"

datatype error = ValueError

subsection \<open>\<open>rgb_to_hex\<close>\<close>

text \<open>
  \<^verbatim>\<open>return f"#{rgb[0]:02x}{rgb[1]:02x}{rgb[2]:02x}".upper()\<close>

  The format specification \<open>02x\<close> writes an integer in lower-case hexadecimal, padded with
  zeros to a width of two characters; the sign of a negative number counts for the width.
\<close>

definition hex_digit :: "nat \<Rightarrow> char" where
  "hex_digit d = ''0123456789abcdef'' ! d"

fun hex_digits :: "nat \<Rightarrow> string" where
  "hex_digits n = (if n < 16 then [hex_digit n] else hex_digits (n div 16) @ [hex_digit (n mod 16)])"

declare hex_digits.simps [simp del]

definition format_02x :: "int \<Rightarrow> string" where
  "format_02x n =
     (if n < 0
      then (let ds = hex_digits (nat (- n)) in CHR ''-'' # replicate (1 - length ds) (CHR ''0'') @ ds)
      else (let ds = hex_digits (nat n) in replicate (2 - length ds) (CHR ''0'') @ ds))"

text \<open>
  \<open>str.upper\<close> on the characters a format of integers can produce (ASCII): the letters
  \<open>a\<close> to \<open>z\<close> move to \<open>A\<close> to \<open>Z\<close>, every other ASCII character stays.
\<close>

definition upper_ascii :: "char \<Rightarrow> char" where
  "upper_ascii c =
     (let n = (of_char c :: nat) in if 97 \<le> n \<and> n \<le> 122 then char_of (n - 32) else c)"

definition rgb_to_hex :: "rgb \<Rightarrow> string" where
  "rgb_to_hex rgb =
     (case rgb of (r, g, b) \<Rightarrow>
        map upper_ascii (CHR ''#'' # format_02x r @ format_02x g @ format_02x b))"

subsection \<open>\<open>hex_to_rgb\<close>\<close>

text \<open>
  \<^verbatim>\<open>hex_color = hex_color.lstrip("#")
return tuple(int(hex_color[i:i+2], 16) for i in (0, 2, 4))\<close>

  \<open>lstrip("#")\<close> removes every leading \<open>#\<close>.  A slice \<open>s[i:j]\<close> with \<open>0 \<le> i \<le> j\<close> never
  fails: it is cut at the end of the string.
\<close>

definition lstrip_hash :: "string \<Rightarrow> string" where
  "lstrip_hash s = dropWhile (\<lambda>c. c = CHR ''#'') s"

definition slice :: "string \<Rightarrow> nat \<Rightarrow> nat \<Rightarrow> string" where
  "slice s i j = take (j - i) (drop i s)"

text \<open>
  The builtin \<open>int(s, 16)\<close>.  White space around the number is skipped (the ASCII white
  space, and the code points 0x85 and 0xA0, which the conversion of a non-ASCII \<open>str\<close> turns
  into blanks); one sign may follow, then the prefix \<open>0x\<close> or \<open>0X\<close> with one underscore after
  it; the digits may be separated by single underscores and there must be at least one.
  Anything else raises \<open>ValueError\<close>, here \<open>None\<close>.  \<open>digit_value\<close> is the interpreter's digit
  table: 37 marks a character that is no digit of any base.
\<close>

definition py_isspace :: "char \<Rightarrow> bool" where
  "py_isspace c \<longleftrightarrow>
     c \<in> {CHR 0x09, CHR 0x0A, CHR 0x0B, CHR 0x0C, CHR 0x0D, CHR 0x20, CHR 0x85, CHR 0xA0}"

definition digit_value :: "char \<Rightarrow> nat" where
  "digit_value c =
     (let n = (of_char c :: nat) in
      if 48 \<le> n \<and> n \<le> 57 then n - 48
      else if 97 \<le> n \<and> n \<le> 122 then n - 87
      else if 65 \<le> n \<and> n \<le> 90 then n - 55
      else 37)"

definition is_hex_digit :: "char \<Rightarrow> bool" where
  "is_hex_digit c \<longleftrightarrow> digit_value c < 16"

fun double_underscore :: "string \<Rightarrow> bool" where
  "double_underscore (a # b # cs) =
     ((a = CHR ''_'' \<and> b = CHR ''_'') \<or> double_underscore (b # cs))"
| "double_underscore _ = False"

definition strip_sign :: "string \<Rightarrow> string" where
  "strip_sign s =
     (case s of [] \<Rightarrow> [] | c # r \<Rightarrow> if c = CHR ''+'' \<or> c = CHR ''-'' then r else s)"

definition strip_0x :: "string \<Rightarrow> string" where
  "strip_0x s =
     (case s of
        c # x # r \<Rightarrow>
          if c = CHR ''0'' \<and> (x = CHR ''x'' \<or> x = CHR ''X'')
          then (case r of [] \<Rightarrow> [] | u # r' \<Rightarrow> if u = CHR ''_'' then r' else r)
          else s
      | _ \<Rightarrow> s)"

definition py_int16 :: "string \<Rightarrow> int option" where
  "py_int16 s =
     (let s1 = dropWhile py_isspace s;
          neg = (s1 \<noteq> [] \<and> hd s1 = CHR ''-'');
          s3 = strip_0x (strip_sign s1);
          body = takeWhile (\<lambda>c. is_hex_digit c \<or> c = CHR ''_'') s3;
          rest = dropWhile (\<lambda>c. is_hex_digit c \<or> c = CHR ''_'') s3;
          ds = filter (\<lambda>c. c \<noteq> CHR ''_'') body
      in if (s3 \<noteq> [] \<and> hd s3 = CHR ''_'') \<or> double_underscore body
            \<or> (body \<noteq> [] \<and> last body = CHR ''_'') \<or> ds = []
            \<or> dropWhile py_isspace rest \<noteq> []
         then None
         else (let v = int (foldl (\<lambda>a c. 16 * a + digit_value c) 0 ds)
               in Some (if neg then - v else v)))"

definition hex_to_rgb :: "string \<Rightarrow> error + rgb" where
  "hex_to_rgb hex_color =
     (let s = lstrip_hash hex_color in
      case py_int16 (slice s 0 2) of
        None \<Rightarrow> Inl ValueError
      | Some r \<Rightarrow>
          (case py_int16 (slice s 2 4) of
             None \<Rightarrow> Inl ValueError
           | Some g \<Rightarrow>
               (case py_int16 (slice s 4 6) of
                  None \<Rightarrow> Inl ValueError
                | Some b \<Rightarrow> Inr (r, g, b))))"

section \<open>Luminance, neutrality and saturation\<close>

text \<open>
  \<^verbatim>\<open>r, g, b = [x / 255.0 for x in rgb]
return 0.2126 * r + 0.7152 * g + 0.0722 * b\<close>

  The floating-point numbers are modelled by real numbers and every operation is exact.
  The classifier only compares luminances, and only those of neutral samples.  On the
  617086 neutral triples with channels from 0 to 255 the floating-point results are
  ordered exactly as the exact values are, and two different triples never have the same
  value, so that the sort of the neutral samples is the same under both.
\<close>

definition calculate_luminance :: "rgb \<Rightarrow> real" where
  "calculate_luminance rgb =
     (case rgb of (x0, x1, x2) \<Rightarrow>
        (let r = real_of_int x0 / 255; g = real_of_int x1 / 255; b = real_of_int x2 / 255
         in 0.2126 * r + 0.7152 * g + 0.0722 * b))"

text \<open>
  \<^verbatim>\<open>r, g, b = rgb
max_diff = max(r, g, b) - min(r, g, b)
return max_diff < 30\<close>
\<close>

definition is_neutral :: "rgb \<Rightarrow> bool" where
  "is_neutral rgb =
     (case rgb of (r, g, b) \<Rightarrow>
        (let max_diff = max (max r g) b - min (min r g) b in max_diff < 30))"

text \<open>The local function \<open>saturation\<close> of \<open>classify_colors\<close>.\<close>

definition saturation :: "rgb \<Rightarrow> int" where
  "saturation rgb =
     (case rgb of (r, g, b) \<Rightarrow>
        (let max_val = max (max r g) b; min_val = min (min r g) b in max_val - min_val))"

section \<open>The palette and its classifier\<close>

text \<open>The pydantic model \<open>ColorPalette\<close> of \<open>backend/models/schemas.py\<close>.\<close>

record ColorPalette =
  primary :: string
  secondary :: string
  accent :: string
  neutrals :: "string list"
  all_colors :: "string list"

text \<open>
  The loop that separates the samples, each list grown by \<open>append\<close>:
  \<^verbatim>\<open>for rgb in colors_rgb:
    if is_neutral(rgb): neutral_colors.append(rgb)
    else: vibrant_colors.append(rgb)\<close>
  The state is the pair (vibrant, neutral).
\<close>

fun partition_loop :: "rgb list \<Rightarrow> rgb list \<times> rgb list \<Rightarrow> rgb list \<times> rgb list" where
  "partition_loop [] acc = acc"
| "partition_loop (c # cs) (vibrant_colors, neutral_colors) =
     (if is_neutral c
      then partition_loop cs (vibrant_colors, neutral_colors @ [c])
      else partition_loop cs (vibrant_colors @ [c], neutral_colors))"

text \<open>
  \<open>list.sort(key=k)\<close> is a stable sort by ascending key, and \<open>reverse=True\<close> sorts by
  descending key with equal keys still in their original order: \<^const>\<open>sort_key\<close> with the
  key, and with the negated key.

  \<open>classify_colors_by lum\<close> is the body of \<open>classify_colors\<close> with the key of
  \<open>neutral_colors.sort\<close> as the parameter \<open>lum\<close>, a key into any linear order, and
  \<open>classify_colors\<close> is the function of the source, with \<open>calculate_luminance\<close> for the key.
  What is proved of \<open>classify_colors_by\<close> for every key holds of the source with its
  floating-point key too, whatever the channels.
\<close>

definition fallback_palette :: ColorPalette where
  "fallback_palette =
     \<lparr>primary = ''#000000'', secondary = ''#FFFFFF'', accent = ''#CCCCCC'',
      neutrals = [''#F5F5F5'', ''#333333''],
      all_colors = [''#000000'', ''#FFFFFF'', ''#CCCCCC'', ''#F5F5F5'', ''#333333'']\<rparr>"

definition classify_colors_by :: "(rgb \<Rightarrow> 'k::linorder) \<Rightarrow> rgb list \<Rightarrow> ColorPalette" where
  "classify_colors_by lum colors_rgb =
     (if colors_rgb = [] then fallback_palette
      else
        (let (vibrant0, neutral0) = partition_loop colors_rgb ([], []);
             vibrant_colors = sort_key (\<lambda>c. - saturation c) vibrant0;
             neutral_colors = sort_key lum neutral0;
             primary_rgb = (if vibrant_colors \<noteq> [] then vibrant_colors ! 0 else colors_rgb ! 0);
             secondary_rgb =
               (if length vibrant_colors > 1 then vibrant_colors ! 1
                else if neutral_colors \<noteq> [] then neutral_colors ! 0
                else if length colors_rgb > 1 then colors_rgb ! 1
                else primary_rgb);
             accent_rgb =
               (if length vibrant_colors > 2 then vibrant_colors ! 2
                else if length vibrant_colors > 1 then vibrant_colors ! 1
                else primary_rgb)
         in \<lparr>primary = rgb_to_hex primary_rgb,
             secondary = rgb_to_hex secondary_rgb,
             accent = rgb_to_hex accent_rgb,
             neutrals = map rgb_to_hex (take 3 neutral_colors),
             all_colors = map rgb_to_hex colors_rgb\<rparr>))"

definition classify_colors :: "rgb list \<Rightarrow> ColorPalette" where
  "classify_colors colors_rgb = classify_colors_by calculate_luminance colors_rgb"

text \<open>
  The two sorted lists of \<open>classify_colors_by\<close> and the three colours it chooses, by name.
\<close>

definition vibrant_sorted :: "rgb list \<Rightarrow> rgb list" where
  "vibrant_sorted cs = sort_key (\<lambda>c. - saturation c) (filter (\<lambda>c. \<not> is_neutral c) cs)"

definition neutral_sorted :: "(rgb \<Rightarrow> 'k::linorder) \<Rightarrow> rgb list \<Rightarrow> rgb list" where
  "neutral_sorted lum cs = sort_key lum (filter is_neutral cs)"

definition chosen_primary :: "rgb list \<Rightarrow> rgb" where
  "chosen_primary cs = (case vibrant_sorted cs of v # _ \<Rightarrow> v | [] \<Rightarrow> hd cs)"

definition chosen_secondary :: "(rgb \<Rightarrow> 'k::linorder) \<Rightarrow> rgb list \<Rightarrow> rgb" where
  "chosen_secondary lum cs =
     (case vibrant_sorted cs of
        _ # v2 # _ \<Rightarrow> v2
      | _ \<Rightarrow>
          (case neutral_sorted lum cs of
             n # _ \<Rightarrow> n
           | [] \<Rightarrow> (case cs of _ # c2 # _ \<Rightarrow> c2 | _ \<Rightarrow> chosen_primary cs)))"

definition chosen_accent :: "rgb list \<Rightarrow> rgb" where
  "chosen_accent cs =
     (case vibrant_sorted cs of
        _ # _ # v3 # _ \<Rightarrow> v3
      | [_, v2] \<Rightarrow> v2
      | _ \<Rightarrow> chosen_primary cs)"

section \<open>The palette merger\<close>

text \<open>
  \<^verbatim>\<open>all_colors = list(set(palette1.all_colors + palette2.all_colors))
return ColorPalette(
    primary=palette1.primary,
    secondary=palette2.primary,
    accent=palette1.accent,
    neutrals=list(set(palette1.neutrals + palette2.neutrals))[:4],
    all_colors=all_colors[:12])\<close>

  \<open>list(set(xs))\<close> lists the distinct elements of \<open>xs\<close> in the iteration order of a set of
  strings.  That order follows the hash values of the strings, which the interpreter seeds
  anew for each process; the language promises no more than that every element comes once.
  The order is therefore the parameter \<open>set_order\<close> of the model, one function for a process,
  and \<open>set_order_ok\<close> is what the language promises of it.
\<close>

definition set_order_ok :: "(string list \<Rightarrow> string list) \<Rightarrow> bool" where
  "set_order_ok set_order \<longleftrightarrow>
     (\<forall>xs. distinct (set_order xs) \<and> set (set_order xs) = set xs)"

definition merge_palettes ::
  "(string list \<Rightarrow> string list) \<Rightarrow> ColorPalette \<Rightarrow> ColorPalette \<Rightarrow> ColorPalette" where
  "merge_palettes set_order palette1 palette2 =
     (let all = set_order (all_colors palette1 @ all_colors palette2)
      in \<lparr>primary = primary palette1,
          secondary = primary palette2,
          accent = accent palette1,
          neutrals = take 4 (set_order (neutrals palette1 @ neutrals palette2)),
          all_colors = take 12 all\<rparr>)"

section \<open>Notions of the specification\<close>

text \<open>
  The canonical form of a colour: \<open>#\<close> and six upper-case hexadecimal digits.
  \<open>upper_hex_digit d\<close> is the upper-case digit of value \<open>d\<close>.
\<close>

definition upper_hex_digit :: "nat \<Rightarrow> char" where
  "upper_hex_digit d = ''0123456789ABCDEF'' ! d"

definition is_upper_hex :: "char \<Rightarrow> bool" where
  "is_upper_hex c \<longleftrightarrow> c \<in> set ''0123456789ABCDEF''"

text \<open>
  The shape check of the specification: one leading \<open>#\<close> is taken off when there is one, and
  what is left is to be exactly six hexadecimal digits, of either case.
\<close>

definition strip_one_hash :: "string \<Rightarrow> string" where
  "strip_one_hash s = (case s of [] \<Rightarrow> [] | c # r \<Rightarrow> if c = CHR ''#'' then r else s)"

definition is_hex6 :: "string \<Rightarrow> bool" where
  "is_hex6 s \<longleftrightarrow> length s = 6 \<and> list_all is_hex_digit s"

text \<open>The channel that two hexadecimal digits denote.\<close>

definition hex_pair_value :: "char \<Rightarrow> char \<Rightarrow> int" where
  "hex_pair_value a b = int (16 * digit_value a + digit_value b)"

text \<open>
  The invariant of a palette: the three roles are colours of \<open>all_colors\<close> whenever
  \<open>all_colors\<close> is not empty, and \<open>neutrals\<close> is a subset of \<open>all_colors\<close>.
\<close>

definition palette_inv :: "ColorPalette \<Rightarrow> bool" where
  "palette_inv p \<longleftrightarrow>
     (all_colors p \<noteq> [] \<longrightarrow>
        primary p \<in> set (all_colors p) \<and> secondary p \<in> set (all_colors p)
        \<and> accent p \<in> set (all_colors p))
     \<and> set (neutrals p) \<subseteq> set (all_colors p)"

text \<open>
  The colours of the specification: an RGB colour has its three channels from 0 to 255.
  The saturation proxy of a colour is its largest channel minus its smallest, a colour
  is neutral when that is less than 30, and the relative luminance is
  \<open>0.2126 * r + 0.7152 * g + 0.0722 * b\<close> on the channels divided by 255.
\<close>

definition valid_rgb :: "rgb \<Rightarrow> bool" where
  "valid_rgb rgb \<longleftrightarrow>
     (case rgb of (r, g, b) \<Rightarrow> 0 \<le> r \<and> r \<le> 255 \<and> 0 \<le> g \<and> g \<le> 255 \<and> 0 \<le> b \<and> b \<le> 255)"

definition spec_saturation :: "rgb \<Rightarrow> int" where
  "spec_saturation rgb = (case rgb of (r, g, b) \<Rightarrow> Max {r, g, b} - Min {r, g, b})"

definition spec_is_neutral :: "rgb \<Rightarrow> bool" where
  "spec_is_neutral rgb \<longleftrightarrow> spec_saturation rgb < 30"

definition spec_luminance :: "rgb \<Rightarrow> real" where
  "spec_luminance rgb =
     (case rgb of (r, g, b) \<Rightarrow>
        0.2126 * (real_of_int r / 255) + 0.7152 * (real_of_int g / 255)
        + 0.0722 * (real_of_int b / 255))"

text \<open>
  The role assignment in the words of the specification: \<open>vibrant\<close> is the samples that are
  not neutral, sorted by descending saturation proxy, \<open>neutral\<close> the neutral samples sorted
  by ascending luminance (both sorts stable), and each role is the first rule that
  applies.
\<close>

definition spec_vibrant :: "rgb list \<Rightarrow> rgb list" where
  "spec_vibrant cs =
     sort_key (\<lambda>c. - spec_saturation c) (filter (\<lambda>c. \<not> spec_is_neutral c) cs)"

definition spec_neutral :: "rgb list \<Rightarrow> rgb list" where
  "spec_neutral cs = sort_key spec_luminance (filter spec_is_neutral cs)"

definition spec_primary :: "rgb list \<Rightarrow> rgb" where
  "spec_primary cs = (case spec_vibrant cs of v # _ \<Rightarrow> v | [] \<Rightarrow> hd cs)"

definition spec_secondary :: "rgb list \<Rightarrow> rgb" where
  "spec_secondary cs =
     (case spec_vibrant cs of
        _ # v2 # _ \<Rightarrow> v2
      | _ \<Rightarrow>
          (case spec_neutral cs of
             n # _ \<Rightarrow> n
           | [] \<Rightarrow> (case cs of _ # c2 # _ \<Rightarrow> c2 | _ \<Rightarrow> spec_primary cs)))"

definition spec_accent :: "rgb list \<Rightarrow> rgb" where
  "spec_accent cs =
     (case spec_vibrant cs of
        _ # _ # v3 # _ \<Rightarrow> v3
      | [_, v2] \<Rightarrow> v2
      | _ \<Rightarrow> spec_primary cs)"

text \<open>
  The relative luminance scaled by \<open>2550000\<close>, which keeps it in the integers: a key that
  orders colours as the luminance does.  It serves where a luminance is to be evaluated.
\<close>

definition luminance_key :: "rgb \<Rightarrow> int" where
  "luminance_key rgb = (case rgb of (r, g, b) \<Rightarrow> 2126 * r + 7152 * g + 722 * b)"

section \<open>Properties of the conversions\<close>

subsection \<open>Formatting and parsing one channel\<close>

lemma hex_digits_small: "n < 16 \<Longrightarrow> hex_digits n = [hex_digit n]"
  by (simp add: hex_digits.simps)

lemma hex_digits_byte: "16 \<le> n \<Longrightarrow> n < 256 \<Longrightarrow> hex_digits n = [hex_digit (n div 16), hex_digit (n mod 16)]"
  by (subst hex_digits.simps) (simp add: hex_digits_small less_mult_imp_div_less)

lemma hex_digit_0: "hex_digit 0 = CHR ''0''"
  by (simp add: hex_digit_def)

lemma format_02x_byte:
  assumes "0 \<le> n" "n < 256"
  shows "format_02x n = [hex_digit (nat n div 16), hex_digit (nat n mod 16)]"
proof (cases "nat n < 16")
  case True
  then show ?thesis using assms by (simp add: format_02x_def hex_digits_small hex_digit_0)
next
  case False
  then show ?thesis using assms by (simp add: format_02x_def hex_digits_byte)
qed

lemma nibble_cases:
  assumes "d < (16::nat)"
  shows "d = 0 \<or> d = 1 \<or> d = 2 \<or> d = 3 \<or> d = 4 \<or> d = 5 \<or> d = 6 \<or> d = 7 \<or> d = 8
     \<or> d = 9 \<or> d = 10 \<or> d = 11 \<or> d = 12 \<or> d = 13 \<or> d = 14 \<or> d = 15"
  using assms by presburger

lemma hex_digit_code:
  assumes "d < 16"
  shows "of_char (hex_digit d) = (if d < 10 then 48 + d else 87 + d)"
  using nibble_cases[OF assms] by (elim disjE) (simp_all add: hex_digit_def)

lemma of_char_upper_ascii:
  "(of_char (upper_ascii c) :: nat) = (if 97 \<le> (of_char c :: nat) \<and> (of_char c :: nat) \<le> 122 then of_char c - 32 else of_char c)"
proof -
  have "(of_char c :: nat) < 256" by simp
  then have "(of_char c :: nat) - 32 < 256" by arith
  then show ?thesis by (simp add: upper_ascii_def Let_def)
qed

lemma upper_hex_digit_value: "d < 16 \<Longrightarrow> digit_value (upper_ascii (hex_digit d)) = d"
  by (simp add: digit_value_def Let_def of_char_upper_ascii hex_digit_code)




lemma is_hex_digit_code:
  "is_hex_digit c \<longleftrightarrow>
     (48 \<le> (of_char c :: nat) \<and> (of_char c :: nat) \<le> 57)
     \<or> (97 \<le> (of_char c :: nat) \<and> (of_char c :: nat) \<le> 102)
     \<or> (65 \<le> (of_char c :: nat) \<and> (of_char c :: nat) \<le> 70)"
  by (auto simp: is_hex_digit_def digit_value_def Let_def)

lemma hex_digit_not_space: "is_hex_digit c \<Longrightarrow> \<not> py_isspace c"
  by (auto simp: is_hex_digit_code py_isspace_def)

lemma hex_digit_not_special:
  assumes "is_hex_digit c"
  shows "c \<noteq> CHR ''+''" "c \<noteq> CHR ''-''" "c \<noteq> CHR ''_''" "c \<noteq> CHR ''#''"
    "c \<noteq> CHR ''x''" "c \<noteq> CHR ''X''"
  using assms by (auto simp: is_hex_digit_code)

lemma py_int16_pair:
  assumes "is_hex_digit c1" "is_hex_digit c2"
  shows "py_int16 [c1, c2] = Some (int (16 * digit_value c1 + digit_value c2))"
  using assms hex_digit_not_space[OF assms(1)] hex_digit_not_space[OF assms(2)]
    hex_digit_not_special[OF assms(1)] hex_digit_not_special[OF assms(2)]
  by (simp add: py_int16_def Let_def strip_sign_def strip_0x_def)

lemma upper_table: "map upper_ascii ''0123456789abcdef'' = ''0123456789ABCDEF''"
  by code_simp

lemma upper_hex_digit_eq:
  assumes "d < 16"
  shows "upper_ascii (hex_digit d) = upper_hex_digit d"
proof -
  have "upper_ascii (hex_digit d) = map upper_ascii ''0123456789abcdef'' ! d"
    unfolding hex_digit_def using assms by (subst nth_map) simp_all
  then show ?thesis by (simp only: upper_table upper_hex_digit_def)
qed

lemma is_hex_upper_hex_digit:
  assumes "d < 16"
  shows "is_hex_digit (upper_hex_digit d)"
  using nibble_cases[OF assms] by (elim disjE) (simp_all add: is_hex_digit_code upper_hex_digit_def)

lemma digit_value_upper_hex_digit: "d < 16 \<Longrightarrow> digit_value (upper_hex_digit d) = d"
  using upper_hex_digit_value[of d] by (simp add: upper_hex_digit_eq)

lemma upper_byte:
  assumes "0 \<le> n" "n < 256"
  shows "map upper_ascii (format_02x n) = [upper_hex_digit (nat n div 16), upper_hex_digit (nat n mod 16)]"
proof -
  have "nat n div 16 < 16" using assms by (simp add: less_mult_imp_div_less)
  then show ?thesis using assms by (simp add: format_02x_byte upper_hex_digit_eq)
qed

lemma py_int16_upper_byte:
  assumes "0 \<le> n" "n < 256"
  shows "py_int16 [upper_hex_digit (nat n div 16), upper_hex_digit (nat n mod 16)] = Some n"
proof -
  have d: "nat n div 16 < 16" using assms by (simp add: less_mult_imp_div_less)
  have m: "nat n mod 16 < 16" by simp
  show ?thesis
    using assms
    by (simp add: py_int16_pair is_hex_upper_hex_digit[OF d] is_hex_upper_hex_digit[OF m]
        digit_value_upper_hex_digit[OF d] digit_value_upper_hex_digit[OF m])
qed

lemma rgb_to_hex_shape:
  assumes "0 \<le> r" "r < 256" "0 \<le> g" "g < 256" "0 \<le> b" "b < 256"
  shows "rgb_to_hex (r, g, b) =
     [CHR ''#'', upper_hex_digit (nat r div 16), upper_hex_digit (nat r mod 16),
      upper_hex_digit (nat g div 16), upper_hex_digit (nat g mod 16),
      upper_hex_digit (nat b div 16), upper_hex_digit (nat b mod 16)]"
  using assms by (simp add: rgb_to_hex_def upper_byte upper_ascii_def)

text \<open>
  Claim C5.  For every RGB triple whose channels are integers from 0 to 255,
  \<open>hex_to_rgb (rgb_to_hex c)\<close> returns \<open>c\<close>, and \<open>rgb_to_hex c\<close> is a string of seven
  characters: \<open>#\<close>, then for each channel its two upper-case hexadecimal digits, the high
  one first (so a channel below 16 is padded with \<open>0\<close>).
\<close>

theorem rgb_hex_round_trip:
  assumes "0 \<le> r" "r \<le> 255" "0 \<le> g" "g \<le> 255" "0 \<le> b" "b \<le> 255"
  shows "hex_to_rgb (rgb_to_hex (r, g, b)) = Inr (r, g, b)
    \<and> rgb_to_hex (r, g, b) =
       [CHR ''#'', upper_hex_digit (nat r div 16), upper_hex_digit (nat r mod 16),
        upper_hex_digit (nat g div 16), upper_hex_digit (nat g mod 16),
        upper_hex_digit (nat b div 16), upper_hex_digit (nat b mod 16)]
    \<and> length (rgb_to_hex (r, g, b)) = 7"
proof -
  have rng: "0 \<le> r" "r < 256" "0 \<le> g" "g < 256" "0 \<le> b" "b < 256"
    using assms by simp_all
  have nh: "upper_hex_digit (nat r div 16) \<noteq> CHR ''#''"
    using hex_digit_not_special(4)[OF is_hex_upper_hex_digit[of "nat r div 16"]] rng
    by (simp add: less_mult_imp_div_less)
  have "hex_to_rgb (rgb_to_hex (r, g, b)) = Inr (r, g, b)"
    using nh by (simp add: rgb_to_hex_shape[OF rng] hex_to_rgb_def lstrip_hash_def slice_def
      py_int16_upper_byte rng)
  then show ?thesis by (simp add: rgb_to_hex_shape[OF rng])
qed

theorem rgb_hex_round_trip_witness:
  "(0::int) \<le> 255 \<and> (255::int) \<le> 255 \<and> (0::int) \<le> 0 \<and> (0::int) \<le> 255
   \<and> (0::int) \<le> 171 \<and> (171::int) \<le> 255
   \<and> hex_to_rgb (rgb_to_hex (255, 0, 171)) = Inr (255, 0, 171)
   \<and> rgb_to_hex (255, 0, 171) = ''#FF00AB''
   \<and> length (rgb_to_hex (255, 0, 171)) = 7"
proof -
  have v: "rgb_to_hex (255, 0, 171) = ''#FF00AB''" by code_simp
  have r: "hex_to_rgb (rgb_to_hex (255, 0, 171)) = Inr (255, 0, 171)
      \<and> rgb_to_hex (255, 0, 171) =
         [CHR ''#'', upper_hex_digit (nat 255 div 16), upper_hex_digit (nat 255 mod 16),
          upper_hex_digit (nat 0 div 16), upper_hex_digit (nat 0 mod 16),
          upper_hex_digit (nat 171 div 16), upper_hex_digit (nat 171 mod 16)]
      \<and> length (rgb_to_hex (255, 0, 171)) = 7"
    by (rule rgb_hex_round_trip) simp_all
  from r have 1: "hex_to_rgb (rgb_to_hex (255, 0, 171)) = Inr (255, 0, 171)"
    by (rule conjunct1)
  from r have 2: "length (rgb_to_hex (255, 0, 171)) = 7"
    by (elim conjE)
  show ?thesis by (intro conjI 1 2 v) simp_all
qed

subsection \<open>From a canonical string and back\<close>

lemma is_upper_hex_digit:
  assumes "is_upper_hex c"
  shows "\<exists>d<16. c = upper_hex_digit d"
proof -
  have len: "length ''0123456789ABCDEF'' = 16" by simp
  from assms obtain i where "i < length ''0123456789ABCDEF''" "''0123456789ABCDEF'' ! i = c"
    unfolding is_upper_hex_def in_set_conv_nth by blast
  then have "i < 16" "c = upper_hex_digit i"
    unfolding upper_hex_digit_def len by simp_all
  then show ?thesis by blast
qed

lemma upper_pair_to_hex:
  assumes "is_upper_hex c1" "is_upper_hex c2"
  shows "\<exists>n. py_int16 [c1, c2] = Some n \<and> map upper_ascii (format_02x n) = [c1, c2]"
proof -
  from assms obtain a b where ab: "a < 16" "b < 16" "c1 = upper_hex_digit a" "c2 = upper_hex_digit b"
    using is_upper_hex_digit by blast
  define n where "n = 16 * a + b"
  have n: "n < 256" "n div 16 = a" "n mod 16 = b"
    using ab by (simp_all add: n_def)
  have "py_int16 [c1, c2] = Some (int (16 * digit_value c1 + digit_value c2))"
    using ab by (simp add: py_int16_pair is_hex_upper_hex_digit)
  then have v: "py_int16 [c1, c2] = Some (int n)"
    using ab by (simp only: digit_value_upper_hex_digit n_def)
  have "map upper_ascii (format_02x (int n)) = [upper_hex_digit (nat (int n) div 16), upper_hex_digit (nat (int n) mod 16)]"
    using n(1) by (intro upper_byte) simp_all
  then have "map upper_ascii (format_02x (int n)) = [c1, c2]"
    by (simp only: nat_int n ab)
  with v show ?thesis by (intro exI[of _ "int n"] conjI)
qed

lemma list6:
  assumes "length ds = 6"
  obtains c1 c2 c3 c4 c5 c6 where "ds = [c1, c2, c3, c4, c5, c6]"
  using assms by (auto simp: numeral_eq_Suc length_Suc_conv)

text \<open>
  Claim C10.  For every string \<open>h\<close> made of \<open>#\<close> and exactly six upper-case hexadecimal
  digits, \<open>hex_to_rgb h\<close> succeeds and \<open>rgb_to_hex\<close> of its result is \<open>h\<close> again.
\<close>

theorem hex_rgb_round_trip:
  assumes "length ds = 6" "list_all is_upper_hex ds"
  shows "map_sum id rgb_to_hex (hex_to_rgb (CHR ''#'' # ds)) = Inr (CHR ''#'' # ds)"
proof -
  from assms(1) obtain c1 c2 c3 c4 c5 c6 where ds: "ds = [c1, c2, c3, c4, c5, c6]"
    by (rule list6)
  from assms(2) have u: "is_upper_hex c1" "is_upper_hex c2" "is_upper_hex c3"
    "is_upper_hex c4" "is_upper_hex c5" "is_upper_hex c6"
    by (simp_all add: ds)
  obtain r where r: "py_int16 [c1, c2] = Some r" "map upper_ascii (format_02x r) = [c1, c2]"
    using upper_pair_to_hex[OF u(1) u(2)] by (elim exE conjE)
  obtain g where g: "py_int16 [c3, c4] = Some g" "map upper_ascii (format_02x g) = [c3, c4]"
    using upper_pair_to_hex[OF u(3) u(4)] by (elim exE conjE)
  obtain b where b: "py_int16 [c5, c6] = Some b" "map upper_ascii (format_02x b) = [c5, c6]"
    using upper_pair_to_hex[OF u(5) u(6)] by (elim exE conjE)
  have "c1 \<noteq> CHR ''#''"
    using u(1) by (auto simp: is_upper_hex_def)
  then have "hex_to_rgb (CHR ''#'' # ds) = Inr (r, g, b)"
    by (simp add: ds hex_to_rgb_def lstrip_hash_def slice_def r g b)
  moreover have "rgb_to_hex (r, g, b) = CHR ''#'' # ds"
    by (simp add: rgb_to_hex_def r g b ds upper_ascii_def)
  ultimately show ?thesis by simp
qed

theorem hex_rgb_round_trip_witness:
  "length ''FF00AB'' = 6 \<and> list_all is_upper_hex ''FF00AB''
   \<and> map_sum id rgb_to_hex (hex_to_rgb ''#FF00AB'') = Inr ''#FF00AB''"
proof -
  have a: "length ''FF00AB'' = 6" by simp
  have b: "list_all is_upper_hex ''FF00AB''" by code_simp
  from hex_rgb_round_trip[OF a b] a b show ?thesis by (intro conjI)
qed

subsection \<open>When \<open>hex_to_rgb\<close> fails\<close>

lemma py_int16_Nil: "py_int16 [] = None"
  by (simp add: py_int16_def strip_sign_def strip_0x_def)

lemma hex_to_rgb_prefix:
  assumes "is_hex6 (take 6 s)" "s = lstrip_hash h"
  shows "hex_to_rgb h =
     Inr (hex_pair_value (s ! 0) (s ! 1), hex_pair_value (s ! 2) (s ! 3), hex_pair_value (s ! 4) (s ! 5))"
proof -
  from assms(1) have "length (take 6 s) = 6" by (simp add: is_hex6_def)
  then obtain c1 c2 c3 c4 c5 c6 where t: "take 6 s = [c1, c2, c3, c4, c5, c6]"
    by (rule list6)
  then have s: "s = [c1, c2, c3, c4, c5, c6] @ drop 6 s"
    by (metis append_take_drop_id)
  from assms(1) have d: "is_hex_digit c1" "is_hex_digit c2" "is_hex_digit c3"
    "is_hex_digit c4" "is_hex_digit c5" "is_hex_digit c6"
    by (simp_all add: is_hex6_def t)
  have sl: "slice s 0 2 = [c1, c2]" "slice s 2 4 = [c3, c4]" "slice s 4 6 = [c5, c6]"
    by (subst s, simp add: slice_def)+
  have nth: "s ! 0 = c1" "s ! 1 = c2" "s ! 2 = c3" "s ! 3 = c4" "s ! 4 = c5" "s ! 5 = c6"
    by (subst s, simp)+
  show ?thesis
    unfolding hex_to_rgb_def assms(2)[symmetric] Let_def sl nth
    by (simp add: py_int16_pair d hex_pair_value_def)
qed

lemma lstrip_hash_hex6:
  assumes "is_hex6 (strip_one_hash h)"
  shows "lstrip_hash h = strip_one_hash h"
proof -
  from assms have "length (strip_one_hash h) = 6" by (simp add: is_hex6_def)
  then obtain c1 c2 c3 c4 c5 c6 where t: "strip_one_hash h = [c1, c2, c3, c4, c5, c6]"
    by (rule list6)
  then have "is_hex_digit c1" using assms by (simp add: is_hex6_def)
  then have "c1 \<noteq> CHR ''#''" by (rule hex_digit_not_special)
  then show ?thesis using t
    by (cases h) (auto simp: lstrip_hash_def strip_one_hash_def split: if_splits)
qed

text \<open>
  Claim C2, as the code has it.  \<open>hex_to_rgb\<close> takes off every leading \<open>#\<close> and converts
  the slices \<open>s[0:2]\<close>, \<open>s[2:4]\<close> and \<open>s[4:6]\<close> of the rest \<open>s\<close> with \<open>int(_, 16)\<close>; the length
  of \<open>s\<close> is not checked.  It fails, with \<open>ValueError\<close>, exactly when one of the three slices is
  rejected.  So it returns the corresponding triple whenever the first six characters
  of \<open>s\<close> are hexadecimal digits, which covers every string that is exactly six
  hexadecimal digits after one leading \<open>#\<close> is taken off; a failure means that the
  string is not of that shape; and it fails whenever \<open>s\<close> has fewer than five characters.
\<close>

theorem hex_to_rgb_failure:
  "(hex_to_rgb h = Inl ValueError \<longleftrightarrow>
      py_int16 (slice (lstrip_hash h) 0 2) = None
      \<or> py_int16 (slice (lstrip_hash h) 2 4) = None
      \<or> py_int16 (slice (lstrip_hash h) 4 6) = None)
   \<and> (is_hex6 (take 6 (lstrip_hash h)) \<longrightarrow>
        hex_to_rgb h =
          Inr (hex_pair_value (lstrip_hash h ! 0) (lstrip_hash h ! 1),
               hex_pair_value (lstrip_hash h ! 2) (lstrip_hash h ! 3),
               hex_pair_value (lstrip_hash h ! 4) (lstrip_hash h ! 5)))
   \<and> (is_hex6 (strip_one_hash h) \<longrightarrow>
        hex_to_rgb h =
          Inr (hex_pair_value (strip_one_hash h ! 0) (strip_one_hash h ! 1),
               hex_pair_value (strip_one_hash h ! 2) (strip_one_hash h ! 3),
               hex_pair_value (strip_one_hash h ! 4) (strip_one_hash h ! 5)))
   \<and> (hex_to_rgb h = Inl e \<longrightarrow> \<not> is_hex6 (strip_one_hash h))
   \<and> (length (lstrip_hash h) < 5 \<longrightarrow> hex_to_rgb h = Inl ValueError)"
proof -
  have iff: "hex_to_rgb h = Inl ValueError \<longleftrightarrow>
      py_int16 (slice (lstrip_hash h) 0 2) = None
      \<or> py_int16 (slice (lstrip_hash h) 2 4) = None
      \<or> py_int16 (slice (lstrip_hash h) 4 6) = None"
    by (simp add: hex_to_rgb_def Let_def split: option.splits)
  have pre: "is_hex6 (take 6 (lstrip_hash h)) \<Longrightarrow>
        hex_to_rgb h =
          Inr (hex_pair_value (lstrip_hash h ! 0) (lstrip_hash h ! 1),
               hex_pair_value (lstrip_hash h ! 2) (lstrip_hash h ! 3),
               hex_pair_value (lstrip_hash h ! 4) (lstrip_hash h ! 5))"
    by (rule hex_to_rgb_prefix) simp_all
  have one: "hex_to_rgb h =
          Inr (hex_pair_value (strip_one_hash h ! 0) (strip_one_hash h ! 1),
               hex_pair_value (strip_one_hash h ! 2) (strip_one_hash h ! 3),
               hex_pair_value (strip_one_hash h ! 4) (strip_one_hash h ! 5))"
    if h6: "is_hex6 (strip_one_hash h)"
  proof -
    have eq: "lstrip_hash h = strip_one_hash h" using h6 by (rule lstrip_hash_hex6)
    have "take 6 (strip_one_hash h) = strip_one_hash h" using h6 by (simp add: is_hex6_def)
    then have "is_hex6 (take 6 (lstrip_hash h))" using h6 by (simp add: eq)
    from pre[OF this] show ?thesis by (simp only: eq)
  qed
  have short: "hex_to_rgb h = Inl ValueError" if "length (lstrip_hash h) < 5"
  proof -
    have "slice (lstrip_hash h) 4 6 = []" using that by (simp add: slice_def)
    then show ?thesis by (simp add: iff py_int16_Nil)
  qed
  from iff pre one short show ?thesis by auto
qed

text \<open>
  The shape check is not what decides: seven hexadecimal digits are accepted, the
  seventh ignored.
\<close>

theorem hex_to_rgb_seven_digits_counterexample:
  "\<not> is_hex6 (strip_one_hash ''1234567'') \<and> hex_to_rgb ''1234567'' = Inr (18, 52, 86)"
  by code_simp

theorem hex_to_rgb_failure_witness:
  "is_hex6 (strip_one_hash ''#0A0a0F'') \<and> hex_to_rgb ''#0A0a0F'' = Inr (10, 10, 15)
   \<and> length (lstrip_hash ''#12'') < 5 \<and> hex_to_rgb ''#12'' = Inl ValueError
   \<and> is_hex6 (take 6 (lstrip_hash ''##1234567'')) \<and> hex_to_rgb ''##1234567'' = Inr (18, 52, 86)"
proof -
  have a: "is_hex6 (strip_one_hash ''#0A0a0F'')" by code_simp
  have b: "length (lstrip_hash ''#12'') < 5" by code_simp
  have c: "is_hex6 (take 6 (lstrip_hash ''##1234567''))" by code_simp
  have va: "(hex_pair_value (strip_one_hash ''#0A0a0F'' ! 0) (strip_one_hash ''#0A0a0F'' ! 1),
               hex_pair_value (strip_one_hash ''#0A0a0F'' ! 2) (strip_one_hash ''#0A0a0F'' ! 3),
               hex_pair_value (strip_one_hash ''#0A0a0F'' ! 4) (strip_one_hash ''#0A0a0F'' ! 5)) = (10, 10, 15)"
    by code_simp
  have vc: "(hex_pair_value (lstrip_hash ''##1234567'' ! 0) (lstrip_hash ''##1234567'' ! 1),
               hex_pair_value (lstrip_hash ''##1234567'' ! 2) (lstrip_hash ''##1234567'' ! 3),
               hex_pair_value (lstrip_hash ''##1234567'' ! 4) (lstrip_hash ''##1234567'' ! 5)) = (18, 52, 86)"
    by code_simp
  from a hex_to_rgb_failure[of "''#0A0a0F''"] have 1: "hex_to_rgb ''#0A0a0F'' = Inr (10, 10, 15)"
    by (simp only: va)
  from b hex_to_rgb_failure[of "''#12''"] have 2: "hex_to_rgb ''#12'' = Inl ValueError" by blast
  from c hex_to_rgb_failure[of "''##1234567''"] have 3: "hex_to_rgb ''##1234567'' = Inr (18, 52, 86)"
    by (simp only: vc)
  from a b c 1 2 3 show ?thesis by (intro conjI)
qed

section \<open>Properties of the classifier\<close>

lemma partition_loop_filter:
  "partition_loop cs (vs, ns) = (vs @ filter (\<lambda>c. \<not> is_neutral c) cs, ns @ filter is_neutral cs)"
  by (induction cs arbitrary: vs ns) simp_all

lemma classify_colors_by_unfold:
  assumes "cs \<noteq> []"
  shows "classify_colors_by lum cs =
     (let vibrant_colors = vibrant_sorted cs;
          neutral_colors = neutral_sorted lum cs;
          primary_rgb = (if vibrant_colors \<noteq> [] then vibrant_colors ! 0 else cs ! 0);
          secondary_rgb =
            (if length vibrant_colors > 1 then vibrant_colors ! 1
             else if neutral_colors \<noteq> [] then neutral_colors ! 0
             else if length cs > 1 then cs ! 1
             else primary_rgb);
          accent_rgb =
            (if length vibrant_colors > 2 then vibrant_colors ! 2
             else if length vibrant_colors > 1 then vibrant_colors ! 1
             else primary_rgb)
      in \<lparr>primary = rgb_to_hex primary_rgb,
          secondary = rgb_to_hex secondary_rgb,
          accent = rgb_to_hex accent_rgb,
          neutrals = map rgb_to_hex (take 3 neutral_colors),
          all_colors = map rgb_to_hex cs\<rparr>)"
  using assms
  by (simp add: classify_colors_by_def partition_loop_filter vibrant_sorted_def neutral_sorted_def Let_def)

lemma primary_choice:
  "cs \<noteq> [] \<Longrightarrow> (if V \<noteq> [] then V ! 0 else cs ! 0) = (case V of v # _ \<Rightarrow> v | [] \<Rightarrow> hd cs)"
  by (cases V) (simp_all add: hd_conv_nth)

lemma secondary_choice:
  "(if length V > 1 then V ! 1 else if N \<noteq> [] then N ! 0 else if length cs > 1 then cs ! 1 else p)
   = (case V of _ # v2 # _ \<Rightarrow> v2
      | _ \<Rightarrow> (case N of n # _ \<Rightarrow> n | [] \<Rightarrow> (case cs of _ # c2 # _ \<Rightarrow> c2 | _ \<Rightarrow> p)))"
  by (simp split: list.splits)

lemma accent_choice:
  "(if length V > 2 then V ! 2 else if length V > 1 then V ! 1 else p)
   = (case V of _ # _ # v3 # _ \<Rightarrow> v3 | [_, v2] \<Rightarrow> v2 | _ \<Rightarrow> p)"
  by (simp split: list.splits)

lemma classify_primary:
  assumes "cs \<noteq> []"
  shows "primary (classify_colors_by lum cs) = rgb_to_hex (chosen_primary cs)"
proof -
  define V where "V = vibrant_sorted cs"
  have "primary (classify_colors_by lum cs) = rgb_to_hex (if V \<noteq> [] then V ! 0 else cs ! 0)"
    unfolding classify_colors_by_unfold[OF assms] Let_def V_def by simp
  also have "\<dots> = rgb_to_hex (chosen_primary cs)"
    unfolding chosen_primary_def V_def[symmetric] by (simp only: primary_choice[OF assms])
  finally show ?thesis .
qed

lemma classify_secondary:
  assumes "cs \<noteq> []"
  shows "secondary (classify_colors_by lum cs) = rgb_to_hex (chosen_secondary lum cs)"
proof -
  define V where "V = vibrant_sorted cs"
  define N where "N = neutral_sorted lum cs"
  have "secondary (classify_colors_by lum cs) =
      rgb_to_hex (if length V > 1 then V ! 1 else if N \<noteq> [] then N ! 0
        else if length cs > 1 then cs ! 1 else (if V \<noteq> [] then V ! 0 else cs ! 0))"
    unfolding classify_colors_by_unfold[OF assms] Let_def V_def N_def by simp
  also have "\<dots> = rgb_to_hex (chosen_secondary lum cs)"
    unfolding chosen_secondary_def chosen_primary_def V_def[symmetric] N_def[symmetric]
    by (simp only: secondary_choice primary_choice[OF assms])
  finally show ?thesis .
qed

lemma classify_accent:
  assumes "cs \<noteq> []"
  shows "accent (classify_colors_by lum cs) = rgb_to_hex (chosen_accent cs)"
proof -
  define V where "V = vibrant_sorted cs"
  have "accent (classify_colors_by lum cs) =
      rgb_to_hex (if length V > 2 then V ! 2 else if length V > 1 then V ! 1
        else (if V \<noteq> [] then V ! 0 else cs ! 0))"
    unfolding classify_colors_by_unfold[OF assms] Let_def V_def by simp
  also have "\<dots> = rgb_to_hex (chosen_accent cs)"
    unfolding chosen_accent_def chosen_primary_def V_def[symmetric]
    by (simp only: accent_choice primary_choice[OF assms])
  finally show ?thesis .
qed

lemma sorted_key_hd_le:
  assumes "sorted (map f xs)" "x \<in> set xs"
  shows "f (hd xs) \<le> f x"
  using assms by (cases xs) auto


lemma set_vibrant_sorted: "set (vibrant_sorted cs) = {c \<in> set cs. \<not> is_neutral c}"
  by (simp add: vibrant_sorted_def)

lemma set_neutral_sorted: "set (neutral_sorted lum cs) = {c \<in> set cs. is_neutral c}"
  by (simp add: neutral_sorted_def)

lemma first_choice_in:
  assumes "set V \<subseteq> S" "hd C \<in> S"
  shows "(case V of v # _ \<Rightarrow> v | [] \<Rightarrow> hd C) \<in> S"
  using assms by (auto split: list.splits)

lemma second_choice_in:
  assumes "set V \<subseteq> S" "set N \<subseteq> S" "set C \<subseteq> S" "p \<in> S"
  shows "(case V of _ # v2 # _ \<Rightarrow> v2
          | _ \<Rightarrow> (case N of n # _ \<Rightarrow> n | [] \<Rightarrow> (case C of _ # c2 # _ \<Rightarrow> c2 | _ \<Rightarrow> p))) \<in> S"
  using assms by (auto split: list.splits)

lemma third_choice_in:
  assumes "set V \<subseteq> S" "p \<in> S"
  shows "(case V of _ # _ # v3 # _ \<Rightarrow> v3 | [_, v2] \<Rightarrow> v2 | _ \<Rightarrow> p) \<in> S"
  using assms by (auto split: list.splits)

lemma second_choice_neutral:
  assumes "length V < 2" "N = x # xs"
  shows "(case V of _ # v2 # _ \<Rightarrow> v2
          | _ \<Rightarrow> (case N of n # _ \<Rightarrow> n | [] \<Rightarrow> q)) = x"
  using assms by (auto split: list.splits)

lemma vibrant_sorted_subset: "set (vibrant_sorted cs) \<subseteq> set cs"
  by (auto simp: set_vibrant_sorted)

lemma neutral_sorted_subset: "set (neutral_sorted lum cs) \<subseteq> set cs"
  by (auto simp: set_neutral_sorted)

lemma chosen_primary_in:
  assumes "cs \<noteq> []"
  shows "chosen_primary cs \<in> set cs"
  unfolding chosen_primary_def
  using assms by (intro first_choice_in vibrant_sorted_subset) simp

lemma chosen_secondary_in:
  assumes "cs \<noteq> []"
  shows "chosen_secondary lum cs \<in> set cs"
  unfolding chosen_secondary_def
  by (intro second_choice_in vibrant_sorted_subset neutral_sorted_subset subset_refl
      chosen_primary_in[OF assms])

lemma chosen_accent_in:
  assumes "cs \<noteq> []"
  shows "chosen_accent cs \<in> set cs"
  unfolding chosen_accent_def
  by (intro third_choice_in vibrant_sorted_subset chosen_primary_in[OF assms])

lemma chosen_primary_most_saturated:
  assumes "v \<in> set cs" "\<not> is_neutral v"
  shows "saturation v \<le> saturation (chosen_primary cs)"
proof -
  from assms have m: "v \<in> set (vibrant_sorted cs)" by (simp add: set_vibrant_sorted)
  then obtain x xs where c: "vibrant_sorted cs = x # xs" by (cases "vibrant_sorted cs") auto
  have "sorted (map (\<lambda>c. - saturation c) (vibrant_sorted cs))"
    by (simp add: vibrant_sorted_def)
  from sorted_key_hd_le[OF this m] show ?thesis by (simp add: c chosen_primary_def)
qed

lemma chosen_secondary_lowest_key:
  assumes "n \<in> set cs" "is_neutral n" "length (vibrant_sorted cs) < 2"
  shows "is_neutral (chosen_secondary lum cs) \<and> lum (chosen_secondary lum cs) \<le> lum n"
proof -
  from assms have m: "n \<in> set (neutral_sorted lum cs)" by (simp add: set_neutral_sorted)
  then obtain x xs where c: "neutral_sorted lum cs = x # xs" by (cases "neutral_sorted lum cs") auto
  have s: "sorted (map lum (neutral_sorted lum cs))"
    by (simp add: neutral_sorted_def)
  have "chosen_secondary lum cs = x"
    unfolding chosen_secondary_def using assms(3) c by (rule second_choice_neutral)
  moreover have "x \<in> set (neutral_sorted lum cs)" by (simp add: c)
  then have "is_neutral x" by (simp add: set_neutral_sorted)
  moreover from sorted_key_hd_le[OF s m] have "lum x \<le> lum n" by (simp add: c)
  ultimately show ?thesis by simp
qed

subsection \<open>The source against the specification\<close>

lemma saturation_spec: "saturation c = spec_saturation c"
  by (cases c) (simp add: saturation_def spec_saturation_def max.commute min.commute
      max.left_commute min.left_commute)

lemma is_neutral_spec: "is_neutral c = spec_is_neutral c"
  using saturation_spec[of c]
  by (cases c) (simp add: is_neutral_def spec_is_neutral_def saturation_def)

lemma calculate_luminance_spec: "calculate_luminance c = spec_luminance c"
  by (cases c) (simp add: calculate_luminance_def spec_luminance_def)

lemma vibrant_sorted_spec: "vibrant_sorted cs = spec_vibrant cs"
  by (simp add: vibrant_sorted_def spec_vibrant_def saturation_spec is_neutral_spec)

lemma neutral_sorted_spec: "neutral_sorted calculate_luminance cs = spec_neutral cs"
proof -
  have "calculate_luminance = spec_luminance" "is_neutral = spec_is_neutral"
    by (auto simp: calculate_luminance_spec is_neutral_spec)
  then show ?thesis by (simp add: neutral_sorted_def spec_neutral_def)
qed

lemma chosen_primary_spec: "chosen_primary cs = spec_primary cs"
  by (simp add: chosen_primary_def spec_primary_def vibrant_sorted_spec)

lemma chosen_secondary_spec: "chosen_secondary calculate_luminance cs = spec_secondary cs"
  unfolding chosen_secondary_def spec_secondary_def vibrant_sorted_spec neutral_sorted_spec
    chosen_primary_spec
  by (rule refl)

lemma chosen_accent_spec: "chosen_accent cs = spec_accent cs"
  unfolding chosen_accent_def spec_accent_def vibrant_sorted_spec chosen_primary_spec
  by (rule refl)

text \<open>
  Claim C3.  For every non-empty sequence of RGB colours the classifier assigns the
  roles as the specification words it.  The samples are partitioned into vibrant ones,
  whose largest channel exceeds the smallest by 30 or more, and neutral ones; the
  vibrant ones are sorted by descending saturation proxy (largest channel minus
  smallest) and the neutral ones by ascending relative luminance.  \<open>primary\<close> is the
  first vibrant sample, which no vibrant sample exceeds in saturation, else the first
  sample; \<open>secondary\<close> is the second vibrant sample, else the first neutral one, which has
  the lowest luminance of the neutral samples, else the second sample, else \<open>primary\<close>;
  \<open>accent\<close> is the third vibrant sample, else the second, else \<open>primary\<close>; each is
  converted with \<open>rgb_to_hex\<close>.
\<close>

theorem classify_colors_roles:
  assumes "cs \<noteq> []" "list_all valid_rgb cs"
  shows "primary (classify_colors cs) = rgb_to_hex (spec_primary cs)
    \<and> secondary (classify_colors cs) = rgb_to_hex (spec_secondary cs)
    \<and> accent (classify_colors cs) = rgb_to_hex (spec_accent cs)
    \<and> set (spec_vibrant cs) = {c \<in> set cs. \<not> spec_is_neutral c}
    \<and> set (spec_neutral cs) = {c \<in> set cs. spec_is_neutral c}
    \<and> length (spec_vibrant cs) + length (spec_neutral cs) = length cs
    \<and> sorted (map (\<lambda>c. - spec_saturation c) (spec_vibrant cs))
    \<and> sorted (map spec_luminance (spec_neutral cs))
    \<and> (\<forall>v\<in>set cs. \<not> spec_is_neutral v \<longrightarrow>
          \<not> spec_is_neutral (spec_primary cs)
          \<and> spec_saturation v \<le> spec_saturation (spec_primary cs))
    \<and> (\<forall>n\<in>set cs. spec_is_neutral n \<longrightarrow> length (spec_vibrant cs) < 2 \<longrightarrow>
          spec_is_neutral (spec_secondary cs)
          \<and> spec_luminance (spec_secondary cs) \<le> spec_luminance n)"
proof -
  have p: "primary (classify_colors cs) = rgb_to_hex (spec_primary cs)"
    using classify_primary[OF assms(1), of calculate_luminance]
    by (simp add: classify_colors_def chosen_primary_spec)
  have s: "secondary (classify_colors cs) = rgb_to_hex (spec_secondary cs)"
    using classify_secondary[OF assms(1), of calculate_luminance]
    by (simp add: classify_colors_def chosen_secondary_spec)
  have a: "accent (classify_colors cs) = rgb_to_hex (spec_accent cs)"
    using classify_accent[OF assms(1), of calculate_luminance]
    by (simp add: classify_colors_def chosen_accent_spec)
  have sv: "set (spec_vibrant cs) = {c \<in> set cs. \<not> spec_is_neutral c}"
    by (simp add: spec_vibrant_def)
  have sn: "set (spec_neutral cs) = {c \<in> set cs. spec_is_neutral c}"
    by (simp add: spec_neutral_def)
  have len: "length (spec_vibrant cs) + length (spec_neutral cs) = length cs"
    using sum_length_filter_compl[of spec_is_neutral cs]
    by (simp add: spec_vibrant_def spec_neutral_def)
  have ov: "sorted (map (\<lambda>c. - spec_saturation c) (spec_vibrant cs))"
    by (simp add: spec_vibrant_def)
  have on: "sorted (map spec_luminance (spec_neutral cs))"
    by (simp add: spec_neutral_def)
  have most: "\<not> spec_is_neutral (spec_primary cs)
      \<and> spec_saturation v \<le> spec_saturation (spec_primary cs)"
    if "v \<in> set cs" "\<not> spec_is_neutral v" for v
  proof -
    from that have m: "v \<in> set (spec_vibrant cs)" by (simp add: sv)
    then obtain x xs where c: "spec_vibrant cs = x # xs" by (cases "spec_vibrant cs") auto
    then have "x \<in> set (spec_vibrant cs)" by simp
    then have "\<not> spec_is_neutral x" by (simp add: sv)
    moreover from sorted_key_hd_le[OF ov m] have "spec_saturation v \<le> spec_saturation x"
      by (simp add: c)
    ultimately show ?thesis by (simp add: spec_primary_def c)
  qed
  have lowest: "spec_is_neutral (spec_secondary cs)
      \<and> spec_luminance (spec_secondary cs) \<le> spec_luminance n"
    if "n \<in> set cs" "spec_is_neutral n" "length (spec_vibrant cs) < 2" for n
  proof -
    from that have m: "n \<in> set (spec_neutral cs)" by (simp add: sn)
    then obtain x xs where c: "spec_neutral cs = x # xs" by (cases "spec_neutral cs") auto
    have "spec_secondary cs = x"
      unfolding spec_secondary_def using that(3) c by (rule second_choice_neutral)
    moreover have "x \<in> set (spec_neutral cs)" by (simp add: c)
    then have "spec_is_neutral x" by (simp add: sn)
    moreover from sorted_key_hd_le[OF on m] have "spec_luminance x \<le> spec_luminance n"
      by (simp add: c)
    ultimately show ?thesis by simp
  qed
  from p s a sv sn len ov on most lowest show ?thesis
    by (intro conjI ballI impI) blast+
qed

text \<open>
  The luminance orders the colours as its integer multiple does, which evaluates the
  sort of the neutral samples.
\<close>

lemma calculate_luminance_key:
  "calculate_luminance c = real_of_int (luminance_key c) / 2550000"
  by (cases c) (simp add: calculate_luminance_def luminance_key_def field_simps)

lemma calculate_luminance_le_iff:
  "calculate_luminance c \<le> calculate_luminance d \<longleftrightarrow> luminance_key c \<le> luminance_key d"
  by (simp add: calculate_luminance_key divide_le_cancel)

lemma insort_key_order_cong:
  assumes "\<forall>y\<in>set ys. (f x \<le> f y) = (g x \<le> g y)"
  shows "insort_key f x ys = insort_key g x ys"
  using assms by (induction ys) simp_all

lemma sort_key_order_cong:
  assumes "\<forall>x\<in>set xs. \<forall>y\<in>set xs. (f x \<le> f y) = (g x \<le> g y)"
  shows "sort_key f xs = sort_key g xs"
  using assms
proof (induction xs)
  case Nil
  then show ?case by simp
next
  case (Cons x xs)
  then have "sort_key f xs = sort_key g xs" by simp
  moreover have "insort_key f x (sort_key g xs) = insort_key g x (sort_key g xs)"
    using Cons.prems by (intro insort_key_order_cong) simp
  ultimately show ?case by simp
qed

lemma neutral_sorted_key:
  "neutral_sorted calculate_luminance cs = neutral_sorted luminance_key cs"
  unfolding neutral_sorted_def
  by (intro sort_key_order_cong) (simp add: calculate_luminance_le_iff)

lemma chosen_secondary_key:
  "chosen_secondary calculate_luminance cs = chosen_secondary luminance_key cs"
  unfolding chosen_secondary_def neutral_sorted_key by (rule refl)

theorem classify_colors_roles_witness:
  "[(200, 200, 210), (0, 50, 20), (10, 10, 10), (100, 90, 130), (255, 0, 0)] \<noteq> ([] :: rgb list)
   \<and> list_all valid_rgb [(200, 200, 210), (0, 50, 20), (10, 10, 10), (100, 90, 130), (255, 0, 0)]
   \<and> primary (classify_colors
         [(200, 200, 210), (0, 50, 20), (10, 10, 10), (100, 90, 130), (255, 0, 0)]) = ''#FF0000''
   \<and> secondary (classify_colors
         [(200, 200, 210), (0, 50, 20), (10, 10, 10), (100, 90, 130), (255, 0, 0)]) = ''#003214''
   \<and> accent (classify_colors
         [(200, 200, 210), (0, 50, 20), (10, 10, 10), (100, 90, 130), (255, 0, 0)]) = ''#645A82''
   \<and> ((0, 50, 20) :: rgb)
       \<in> set [(200, 200, 210), (0, 50, 20), (10, 10, 10), (100, 90, 130), (255, 0, 0)]
   \<and> \<not> spec_is_neutral (0, 50, 20)
   \<and> spec_primary [(200, 200, 210), (0, 50, 20), (10, 10, 10), (100, 90, 130), (255, 0, 0)]
       = (255, 0, 0)
   \<and> spec_saturation (0, 50, 20) = 50 \<and> spec_saturation (255, 0, 0) = 255
   \<and> spec_saturation (0, 50, 20)
       \<le> spec_saturation
            (spec_primary [(200, 200, 210), (0, 50, 20), (10, 10, 10), (100, 90, 130), (255, 0, 0)])
   \<and> [(200, 200, 210), (10, 10, 10)] \<noteq> ([] :: rgb list)
   \<and> list_all valid_rgb [(200, 200, 210), (10, 10, 10)]
   \<and> ((200, 200, 210) :: rgb) \<in> set [(200, 200, 210), (10, 10, 10)]
   \<and> spec_is_neutral (200, 200, 210)
   \<and> length (spec_vibrant [(200, 200, 210), (10, 10, 10)]) < 2
   \<and> primary (classify_colors [(200, 200, 210), (10, 10, 10)]) = ''#C8C8D2''
   \<and> secondary (classify_colors [(200, 200, 210), (10, 10, 10)]) = ''#0A0A0A''
   \<and> spec_luminance (spec_secondary [(200, 200, 210), (10, 10, 10)])
       \<le> spec_luminance (200, 200, 210)"
proof -
  define cs :: "rgb list" where
    "cs = [(200, 200, 210), (0, 50, 20), (10, 10, 10), (100, 90, 130), (255, 0, 0)]"
  define ns :: "rgb list" where "ns = [(200, 200, 210), (10, 10, 10)]"
  have ne: "cs \<noteq> []" "ns \<noteq> []" by (simp_all add: cs_def ns_def)
  have ok: "list_all valid_rgb cs" "list_all valid_rgb ns"
    by (simp_all add: cs_def ns_def valid_rgb_def)
  have pv: "chosen_primary cs = (255, 0, 0)" unfolding cs_def by code_simp
  have ev: "rgb_to_hex (chosen_primary cs) = ''#FF0000''"
    "rgb_to_hex (chosen_secondary luminance_key cs) = ''#003214''"
    "rgb_to_hex (chosen_accent cs) = ''#645A82''"
    "rgb_to_hex (chosen_primary ns) = ''#C8C8D2''"
    "rgb_to_hex (chosen_secondary luminance_key ns) = ''#0A0A0A''"
    unfolding cs_def ns_def by code_simp+
  have sp: "rgb_to_hex (spec_primary cs) = ''#FF0000''"
    "rgb_to_hex (spec_secondary cs) = ''#003214''"
    "rgb_to_hex (spec_accent cs) = ''#645A82''"
    "rgb_to_hex (spec_primary ns) = ''#C8C8D2''"
    "rgb_to_hex (spec_secondary ns) = ''#0A0A0A''"
    using ev
    by (simp_all only: chosen_primary_spec[symmetric] chosen_accent_spec[symmetric]
        chosen_secondary_spec[symmetric] chosen_secondary_key)
  have pvs: "spec_primary cs = (255, 0, 0)"
    using pv by (simp only: chosen_primary_spec[symmetric])
  have sat: "spec_saturation (0, 50, 20) = 50" "spec_saturation (255, 0, 0) = 255"
    by (simp_all add: spec_saturation_def)
  have mem: "(0, 50, 20) \<in> set cs" "\<not> spec_is_neutral (0, 50, 20)"
    "(200, 200, 210) \<in> set ns" "spec_is_neutral (200, 200, 210)"
    by (simp_all add: cs_def ns_def spec_is_neutral_def spec_saturation_def)
  have "length (vibrant_sorted ns) < 2" unfolding ns_def by code_simp
  then have few: "length (spec_vibrant ns) < 2" by (simp only: vibrant_sorted_spec)
  note a = classify_colors_roles[OF ne(1) ok(1)]
  note b = classify_colors_roles[OF ne(2) ok(2)]
  from a have 1: "primary (classify_colors cs) = ''#FF0000''"
    by (simp only: sp)
  from a have 2: "secondary (classify_colors cs) = ''#003214''"
    by (simp only: sp)
  from a have 3: "accent (classify_colors cs) = ''#645A82''"
    by (simp only: sp)
  from a mem have 4: "spec_saturation (0, 50, 20) \<le> spec_saturation (spec_primary cs)"
    by blast
  from b have 5: "primary (classify_colors ns) = ''#C8C8D2''"
    by (simp only: sp)
  from b have 6: "secondary (classify_colors ns) = ''#0A0A0A''"
    by (simp only: sp)
  from b mem few have 7: "spec_luminance (spec_secondary ns) \<le> spec_luminance (200, 200, 210)"
    by blast
  from ne ok mem few pvs sat 1 2 3 4 5 6 7 show ?thesis
    unfolding cs_def ns_def by (intro conjI)
qed

text \<open>
  Claim C4.  On the empty sequence the classifier returns the fixed fallback palette:
  primary \<open>#000000\<close>, secondary \<open>#FFFFFF\<close>, accent \<open>#CCCCCC\<close>, the neutrals \<open>#F5F5F5\<close> and
  \<open>#333333\<close>, and as \<open>all_colors\<close> these five values in this order; and so under every
  key of the neutral sort.
\<close>

theorem classify_colors_empty:
  "classify_colors [] =
     \<lparr>primary = ''#000000'', secondary = ''#FFFFFF'', accent = ''#CCCCCC'',
      neutrals = [''#F5F5F5'', ''#333333''],
      all_colors = [''#000000'', ''#FFFFFF'', ''#CCCCCC'', ''#F5F5F5'', ''#333333'']\<rparr>
   \<and> classify_colors_by lum [] =
     \<lparr>primary = ''#000000'', secondary = ''#FFFFFF'', accent = ''#CCCCCC'',
      neutrals = [''#F5F5F5'', ''#333333''],
      all_colors = [''#000000'', ''#FFFFFF'', ''#CCCCCC'', ''#F5F5F5'', ''#333333'']\<rparr>"
  by (simp add: classify_colors_def classify_colors_by_def fallback_palette_def)

text \<open>
  Claim C9.  \<open>is_neutral\<close> holds of a triple exactly when its largest channel exceeds its
  smallest by less than 30; so \<open>(100, 100, 129)\<close> is neutral and \<open>(100, 100, 131)\<close> is not.
\<close>

theorem is_neutral_threshold:
  "(is_neutral (r, g, b) \<longleftrightarrow> Max {r, g, b} - Min {r, g, b} < 30)
   \<and> is_neutral (100, 100, 129) \<and> \<not> is_neutral (100, 100, 131)"
  by (simp add: is_neutral_def max.commute min.commute max.left_commute min.left_commute)

section \<open>Properties of the merger\<close>

text \<open>
  Claim C6.  The merged palette has the primary of the first palette, as its secondary
  the primary of the second palette, and the accent of the first palette, whatever the
  iteration order of sets.
\<close>

theorem merge_palettes_roles:
  "primary (merge_palettes set_order a b) = primary a
   \<and> secondary (merge_palettes set_order a b) = primary b
   \<and> accent (merge_palettes set_order a b) = accent a"
  by (simp add: merge_palettes_def Let_def)

subsection \<open>Deduplication and the caps\<close>

lemma set_order_ok_remdups: "set_order_ok remdups"
  by (simp add: set_order_ok_def)

lemma set_order_ok_rev_remdups: "set_order_ok (rev \<circ> remdups)"
  by (simp add: set_order_ok_def)

lemma set_order_length:
  assumes "set_order_ok so"
  shows "length (so xs) = card (set xs)"
proof -
  from assms have "distinct (so xs)" "set (so xs) = set xs"
    by (simp_all add: set_order_ok_def)
  then show ?thesis using distinct_card[of "so xs"] by simp
qed

lemma capped_order:
  assumes "set_order_ok so"
  shows "distinct (take n (so xs))"
    and "length (take n (so xs)) = min n (card (set xs))"
    and "set (take n (so xs)) \<subseteq> set xs"
    and "card (set xs) \<le> n \<Longrightarrow> set (take n (so xs)) = set xs"
proof -
  from assms have d: "distinct (so xs)" and s: "set (so xs) = set xs"
    by (simp_all add: set_order_ok_def)
  show "distinct (take n (so xs))" using d by simp
  show "length (take n (so xs)) = min n (card (set xs))"
    by (simp add: set_order_length[OF assms] min.commute)
  show "set (take n (so xs)) \<subseteq> set xs"
    using set_take_subset[of n "so xs"] by (simp add: s)
  show "set (take n (so xs)) = set xs" if "card (set xs) \<le> n"
    using that by (simp add: set_order_length[OF assms] s)
qed

text \<open>
  Claim C7.  Whatever the iteration order of sets, the neutrals of the merged palette
  are the first 4 entries of a duplicate-free listing of the union of the two
  \<open>neutrals\<close> lists, and its \<open>all_colors\<close> the first 12 entries of such a listing of the
  union of the two \<open>all_colors\<close> lists.  So neither list has a duplicate, their lengths
  are the smaller of the cap and the size of the union, and below the cap the list holds
  the whole union.
\<close>

theorem merge_palettes_caps:
  assumes "set_order_ok set_order"
  shows "(\<exists>u. distinct u \<and> set u = set (neutrals a) \<union> set (neutrals b)
           \<and> neutrals (merge_palettes set_order a b) = take 4 u)
    \<and> (\<exists>u. distinct u \<and> set u = set (all_colors a) \<union> set (all_colors b)
           \<and> all_colors (merge_palettes set_order a b) = take 12 u)
    \<and> distinct (neutrals (merge_palettes set_order a b))
    \<and> distinct (all_colors (merge_palettes set_order a b))
    \<and> length (neutrals (merge_palettes set_order a b))
        = min 4 (card (set (neutrals a) \<union> set (neutrals b)))
    \<and> length (all_colors (merge_palettes set_order a b))
        = min 12 (card (set (all_colors a) \<union> set (all_colors b)))
    \<and> set (neutrals (merge_palettes set_order a b)) \<subseteq> set (neutrals a) \<union> set (neutrals b)
    \<and> set (all_colors (merge_palettes set_order a b))
        \<subseteq> set (all_colors a) \<union> set (all_colors b)
    \<and> (card (set (neutrals a) \<union> set (neutrals b)) \<le> 4 \<longrightarrow>
          set (neutrals (merge_palettes set_order a b)) = set (neutrals a) \<union> set (neutrals b))
    \<and> (card (set (all_colors a) \<union> set (all_colors b)) \<le> 12 \<longrightarrow>
          set (all_colors (merge_palettes set_order a b))
            = set (all_colors a) \<union> set (all_colors b))"
proof -
  have n: "neutrals (merge_palettes set_order a b) = take 4 (set_order (neutrals a @ neutrals b))"
    by (simp add: merge_palettes_def Let_def)
  have c: "all_colors (merge_palettes set_order a b)
      = take 12 (set_order (all_colors a @ all_colors b))"
    by (simp add: merge_palettes_def Let_def)
  from assms have un: "distinct (set_order (neutrals a @ neutrals b))"
    "set (set_order (neutrals a @ neutrals b)) = set (neutrals a) \<union> set (neutrals b)"
    and uc: "distinct (set_order (all_colors a @ all_colors b))"
    "set (set_order (all_colors a @ all_colors b)) = set (all_colors a) \<union> set (all_colors b)"
    by (simp_all add: set_order_ok_def)
  have e1: "\<exists>u. distinct u \<and> set u = set (neutrals a) \<union> set (neutrals b)
           \<and> neutrals (merge_palettes set_order a b) = take 4 u"
    using un n by blast
  have e2: "\<exists>u. distinct u \<and> set u = set (all_colors a) \<union> set (all_colors b)
           \<and> all_colors (merge_palettes set_order a b) = take 12 u"
    using uc c by blast
  note kn = capped_order[OF assms, where n = 4 and xs = "neutrals a @ neutrals b"]
  note kc = capped_order[OF assms, where n = 12 and xs = "all_colors a @ all_colors b"]
  have d: "distinct (neutrals (merge_palettes set_order a b))"
    "distinct (all_colors (merge_palettes set_order a b))"
    unfolding n c by (rule kn(1), rule kc(1))
  have l: "length (neutrals (merge_palettes set_order a b))
        = min 4 (card (set (neutrals a) \<union> set (neutrals b)))"
    "length (all_colors (merge_palettes set_order a b))
        = min 12 (card (set (all_colors a) \<union> set (all_colors b)))"
    unfolding n c using kn(2) kc(2) by simp_all
  have s: "set (neutrals (merge_palettes set_order a b)) \<subseteq> set (neutrals a) \<union> set (neutrals b)"
    "set (all_colors (merge_palettes set_order a b)) \<subseteq> set (all_colors a) \<union> set (all_colors b)"
    unfolding n c using kn(3) kc(3) by simp_all
  have f: "card (set (neutrals a) \<union> set (neutrals b)) \<le> 4 \<Longrightarrow>
          set (neutrals (merge_palettes set_order a b)) = set (neutrals a) \<union> set (neutrals b)"
    "card (set (all_colors a) \<union> set (all_colors b)) \<le> 12 \<Longrightarrow>
          set (all_colors (merge_palettes set_order a b))
            = set (all_colors a) \<union> set (all_colors b)"
    unfolding n c using kn(4) kc(4) by simp_all
  from e1 e2 d l s f show ?thesis by (intro conjI impI)
qed

theorem merge_palettes_caps_witness:
  "set_order_ok remdups
   \<and> neutrals (merge_palettes remdups
        \<lparr>primary = ''#111111'', secondary = ''#AAAAAA'', accent = ''#222222'',
         neutrals = [''#111111'', ''#222222'', ''#333333''],
         all_colors = [''#111111'', ''#AAAAAA'', ''#222222'', ''#333333'']\<rparr>
        \<lparr>primary = ''#AAAAAA'', secondary = ''#444444'', accent = ''#555555'',
         neutrals = [''#333333'', ''#444444'', ''#555555''],
         all_colors = [''#AAAAAA'', ''#333333'', ''#444444'', ''#555555'']\<rparr>)
      = [''#111111'', ''#222222'', ''#333333'', ''#444444'']
   \<and> length (neutrals (merge_palettes remdups
        \<lparr>primary = ''#111111'', secondary = ''#AAAAAA'', accent = ''#222222'',
         neutrals = [''#111111'', ''#222222'', ''#333333''],
         all_colors = [''#111111'', ''#AAAAAA'', ''#222222'', ''#333333'']\<rparr>
        \<lparr>primary = ''#AAAAAA'', secondary = ''#444444'', accent = ''#555555'',
         neutrals = [''#333333'', ''#444444'', ''#555555''],
         all_colors = [''#AAAAAA'', ''#333333'', ''#444444'', ''#555555'']\<rparr>))
      = min 4 (card (set [''#111111'', ''#222222'', ''#333333'']
                   \<union> set [''#333333'', ''#444444'', ''#555555'']))"
proof -
  define a where "a = \<lparr>primary = ''#111111'', secondary = ''#AAAAAA'', accent = ''#222222'',
         neutrals = [''#111111'', ''#222222'', ''#333333''],
         all_colors = [''#111111'', ''#AAAAAA'', ''#222222'', ''#333333'']\<rparr>"
  define b where "b = \<lparr>primary = ''#AAAAAA'', secondary = ''#444444'', accent = ''#555555'',
         neutrals = [''#333333'', ''#444444'', ''#555555''],
         all_colors = [''#AAAAAA'', ''#333333'', ''#444444'', ''#555555'']\<rparr>"
  have ok: "set_order_ok remdups" by (simp add: set_order_ok_def)
  have v: "neutrals (merge_palettes remdups a b) = [''#111111'', ''#222222'', ''#333333'', ''#444444'']"
    by (simp add: a_def b_def merge_palettes_def)
  from merge_palettes_caps[OF ok, of a b]
  have l: "length (neutrals (merge_palettes remdups a b))
      = min 4 (card (set (neutrals a) \<union> set (neutrals b)))"
    by (elim conjE)
  have na: "neutrals a = [''#111111'', ''#222222'', ''#333333'']"
    and nb: "neutrals b = [''#333333'', ''#444444'', ''#555555'']"
    by (simp_all add: a_def b_def)
  from ok v l show ?thesis unfolding na nb unfolding a_def b_def by (intro conjI)
qed

subsection \<open>The palette invariant\<close>

lemma palette_inv_classify: "palette_inv (classify_colors_by lum cs)"
proof (cases "cs = []")
  case True
  then show ?thesis
    by (simp add: classify_colors_by_def fallback_palette_def palette_inv_def)
next
  case False
  have all: "all_colors (classify_colors_by lum cs) = map rgb_to_hex cs"
    and neu: "neutrals (classify_colors_by lum cs) = map rgb_to_hex (take 3 (neutral_sorted lum cs))"
    by (simp_all add: classify_colors_by_unfold[OF False] Let_def)
  have "set (take 3 (neutral_sorted lum cs)) \<subseteq> set cs"
    using set_take_subset[of 3 "neutral_sorted lum cs"] neutral_sorted_subset[of lum cs] by blast
  then have n: "set (neutrals (classify_colors_by lum cs)) \<subseteq> set (all_colors (classify_colors_by lum cs))"
    unfolding all neu by auto
  have "primary (classify_colors_by lum cs) \<in> set (all_colors (classify_colors_by lum cs))"
    "secondary (classify_colors_by lum cs) \<in> set (all_colors (classify_colors_by lum cs))"
    "accent (classify_colors_by lum cs) \<in> set (all_colors (classify_colors_by lum cs))"
    unfolding all classify_primary[OF False] classify_secondary[OF False] classify_accent[OF False]
    using chosen_primary_in[OF False] chosen_secondary_in[OF False, of lum] chosen_accent_in[OF False]
    by simp_all
  with n show ?thesis by (simp add: palette_inv_def)
qed

lemma palette_inv_merge:
  assumes ok: "set_order_ok so"
    and a: "palette_inv a" and b: "palette_inv b"
    and e: "all_colors a = [] \<longleftrightarrow> all_colors b = []"
    and c: "card (set (all_colors a) \<union> set (all_colors b)) \<le> 12"
  shows "palette_inv (merge_palettes so a b)"
proof -
  let ?m = "merge_palettes so a b"
  have all: "set (all_colors ?m) = set (all_colors a) \<union> set (all_colors b)"
    using capped_order(4)[OF ok, where n = 12 and xs = "all_colors a @ all_colors b"] c
    by (simp add: merge_palettes_def Let_def)
  have "set (neutrals ?m) \<subseteq> set (neutrals a) \<union> set (neutrals b)"
    using capped_order(3)[OF ok, where n = 4 and xs = "neutrals a @ neutrals b"]
    by (simp add: merge_palettes_def Let_def)
  then have n: "set (neutrals ?m) \<subseteq> set (all_colors ?m)"
    using a b unfolding all palette_inv_def by blast
  have r: "primary ?m = primary a" "secondary ?m = primary b" "accent ?m = accent a"
    by (simp_all add: merge_palettes_def Let_def)
  have "primary ?m \<in> set (all_colors ?m) \<and> secondary ?m \<in> set (all_colors ?m)
      \<and> accent ?m \<in> set (all_colors ?m)" if "all_colors ?m \<noteq> []"
  proof -
    from that all have "all_colors a \<noteq> [] \<or> all_colors b \<noteq> []" by auto
    with e have "all_colors a \<noteq> []" "all_colors b \<noteq> []" by auto
    with a b show ?thesis unfolding r all palette_inv_def by blast
  qed
  with n show ?thesis unfolding palette_inv_def by blast
qed

text \<open>
  Claim C1, as the code has it.  Every palette the classifier returns satisfies the
  palette invariant, under every key of the neutral sort.  The merger keeps the invariant of its two palettes when their
  \<open>all_colors\<close> are both empty or both non-empty and hold together at most 12 distinct
  colours, so that the cap of 12 drops nothing.
\<close>

theorem palette_invariant_classify_merge:
  "palette_inv (classify_colors cs)
   \<and> palette_inv (classify_colors_by lum cs)
   \<and> (set_order_ok set_order \<longrightarrow> palette_inv a \<longrightarrow> palette_inv b \<longrightarrow>
        (all_colors a = [] \<longleftrightarrow> all_colors b = []) \<longrightarrow>
        card (set (all_colors a) \<union> set (all_colors b)) \<le> 12 \<longrightarrow>
        palette_inv (merge_palettes set_order a b))"
proof -
  have "palette_inv (classify_colors cs)"
    unfolding classify_colors_def by (rule palette_inv_classify)
  moreover have "palette_inv (classify_colors_by lum cs)"
    by (rule palette_inv_classify)
  ultimately show ?thesis using palette_inv_merge by blast
qed

text \<open>
  Without these conditions the invariant can be lost.  A palette with no \<open>all_colors\<close>
  satisfies it, and merged with the fallback palette its primary is missing from the
  five colours of the result, under every iteration order.
\<close>

theorem merge_breaks_invariant_counterexample:
  "palette_inv \<lparr>primary = ''#111111'', secondary = ''#111111'', accent = ''#111111'',
                neutrals = [], all_colors = []\<rparr>
   \<and> palette_inv fallback_palette
   \<and> \<not> palette_inv (merge_palettes remdups
          \<lparr>primary = ''#111111'', secondary = ''#111111'', accent = ''#111111'',
           neutrals = [], all_colors = []\<rparr>
          fallback_palette)"
  by (simp add: palette_inv_def fallback_palette_def merge_palettes_def)

lemma merge_empty_source_breaks_invariant:
  assumes "set_order_ok so"
  shows "\<not> palette_inv (merge_palettes so
          \<lparr>primary = ''#111111'', secondary = ''#111111'', accent = ''#111111'',
           neutrals = [], all_colors = []\<rparr>
          fallback_palette)"
proof
  define m where "m = merge_palettes so
          \<lparr>primary = ''#111111'', secondary = ''#111111'', accent = ''#111111'',
           neutrals = [], all_colors = []\<rparr>
          fallback_palette"
  assume "palette_inv (merge_palettes so
          \<lparr>primary = ''#111111'', secondary = ''#111111'', accent = ''#111111'',
           neutrals = [], all_colors = []\<rparr>
          fallback_palette)"
  then have inv: "palette_inv m" by (simp only: m_def)
  have "length (all_colors fallback_palette) = 5" by (simp add: fallback_palette_def)
  with card_length[of "all_colors fallback_palette"]
  have c: "card (set (all_colors fallback_palette)) \<le> 12" by linarith
  have am: "all_colors m = take 12 (so (all_colors fallback_palette))"
    by (simp add: m_def merge_palettes_def)
  have s: "set (all_colors m) = set (all_colors fallback_palette)"
    unfolding am using assms c by (rule capped_order(4))
  have p: "primary m = ''#111111''" by (simp add: m_def merge_palettes_def)
  have out: "''#111111'' \<notin> set (all_colors fallback_palette)"
    by (simp add: fallback_palette_def)
  have "set (all_colors fallback_palette) \<noteq> {}" by (simp add: fallback_palette_def)
  then have ne: "all_colors m \<noteq> []" unfolding s[symmetric] by simp
  from inv ne have "primary m \<in> set (all_colors m)" by (simp add: palette_inv_def)
  with out show False unfolding p s by simp
qed

text \<open>
  Above the cap a role can be cut off: twelve colours merged with a thirteenth, listed in
  order of first occurrence, lose the primary of the second palette, which is the
  secondary of the result.
\<close>

lemma merge_truncation_breaks_invariant:
  "palette_inv (classify_colors_by luminance_key
       [(255, 0, 0), (0, 250, 0), (0, 0, 245), (240, 240, 0), (0, 235, 235), (230, 0, 230),
        (225, 100, 0), (0, 220, 100), (100, 0, 215), (210, 0, 100), (100, 205, 0), (0, 100, 200)])
   \<and> palette_inv (classify_colors_by luminance_key [(128, 0, 64)])
   \<and> \<not> palette_inv (merge_palettes remdups
        (classify_colors_by luminance_key
          [(255, 0, 0), (0, 250, 0), (0, 0, 245), (240, 240, 0), (0, 235, 235), (230, 0, 230),
           (225, 100, 0), (0, 220, 100), (100, 0, 215), (210, 0, 100), (100, 205, 0), (0, 100, 200)])
        (classify_colors_by luminance_key [(128, 0, 64)]))"
proof -
  have a: "classify_colors_by luminance_key
       [(255, 0, 0), (0, 250, 0), (0, 0, 245), (240, 240, 0), (0, 235, 235), (230, 0, 230),
        (225, 100, 0), (0, 220, 100), (100, 0, 215), (210, 0, 100), (100, 205, 0), (0, 100, 200)]
     = \<lparr>primary = ''#FF0000'', secondary = ''#00FA00'', accent = ''#0000F5'', neutrals = [],
        all_colors =
          [''#FF0000'', ''#00FA00'', ''#0000F5'', ''#F0F000'', ''#00EBEB'', ''#E600E6'',
           ''#E16400'', ''#00DC64'', ''#6400D7'', ''#D20064'', ''#64CD00'', ''#0064C8'']\<rparr>"
    by code_simp
  have b: "classify_colors_by luminance_key [(128, 0, 64)]
     = \<lparr>primary = ''#800040'', secondary = ''#800040'', accent = ''#800040'', neutrals = [],
        all_colors = [''#800040'']\<rparr>"
    by code_simp
  have "\<not> palette_inv (merge_palettes remdups
        (classify_colors_by luminance_key
          [(255, 0, 0), (0, 250, 0), (0, 0, 245), (240, 240, 0), (0, 235, 235), (230, 0, 230),
           (225, 100, 0), (0, 220, 100), (100, 0, 215), (210, 0, 100), (100, 205, 0), (0, 100, 200)])
        (classify_colors_by luminance_key [(128, 0, 64)]))"
    unfolding a b by (simp add: palette_inv_def merge_palettes_def)
  then show ?thesis using palette_inv_classify by (intro conjI)
qed

theorem palette_invariant_classify_merge_witness:
  "set_order_ok remdups
   \<and> palette_inv (classify_colors_by luminance_key [(255, 0, 0), (10, 10, 10)])
   \<and> palette_inv (classify_colors_by luminance_key [])
   \<and> (all_colors (classify_colors_by luminance_key [(255, 0, 0), (10, 10, 10)]) = []
        \<longleftrightarrow> all_colors (classify_colors_by luminance_key []) = [])
   \<and> card (set (all_colors (classify_colors_by luminance_key [(255, 0, 0), (10, 10, 10)]))
           \<union> set (all_colors (classify_colors_by luminance_key []))) \<le> 12
   \<and> palette_inv (merge_palettes remdups
         (classify_colors_by luminance_key [(255, 0, 0), (10, 10, 10)])
         (classify_colors_by luminance_key []))"
proof -
  define A where "A = classify_colors_by luminance_key [(255, 0, 0), (10, 10, 10)]"
  define B where "B = classify_colors_by luminance_key []"
  have ok: "set_order_ok remdups" by (simp add: set_order_ok_def)
  have ia: "palette_inv A"
    unfolding A_def
    by (rule palette_invariant_classify_merge[where lum = luminance_key
          and cs = "[(255, 0, 0), (10, 10, 10)]", THEN conjunct2, THEN conjunct1])
  have ib: "palette_inv B"
    unfolding B_def
    by (rule palette_invariant_classify_merge[where lum = luminance_key and cs = "[]",
          THEN conjunct2, THEN conjunct1])
  have eA: "all_colors A = [''#FF0000'', ''#0A0A0A'']" unfolding A_def by code_simp
  have eB: "all_colors B = [''#000000'', ''#FFFFFF'', ''#CCCCCC'', ''#F5F5F5'', ''#333333'']"
    by (simp add: B_def classify_colors_by_def fallback_palette_def)
  have e: "all_colors A = [] \<longleftrightarrow> all_colors B = []" by (simp add: eA eB)
  have "length (all_colors A @ all_colors B) = 7" by (simp add: eA eB)
  with card_length[of "all_colors A @ all_colors B"]
  have c: "card (set (all_colors A) \<union> set (all_colors B)) \<le> 12" by simp
  from palette_invariant_classify_merge[where set_order = remdups and a = A and b = B]
    ok ia ib e c
  have m: "palette_inv (merge_palettes remdups A B)" by blast
  from ok ia ib e c m show ?thesis unfolding A_def B_def by (intro conjI)
qed

subsection \<open>Dependence on the iteration order of sets\<close>

lemma insort_key_cong_on:
  assumes "f x = g x" "\<forall>y\<in>set ys. f y = g y"
  shows "insort_key f x ys = insort_key g x ys"
  using assms by (induction ys) simp_all

lemma sort_key_cong_on:
  assumes "\<forall>y\<in>set xs. f y = g y"
  shows "sort_key f xs = sort_key g xs"
  using assms
proof (induction xs)
  case Nil
  then show ?case by simp
next
  case (Cons x xs)
  then have "sort_key f xs = sort_key g xs" by simp
  moreover have "insort_key f x (sort_key g xs) = insort_key g x (sort_key g xs)"
    using Cons.prems by (intro insort_key_cong_on) simp_all
  ultimately show ?case by simp
qed

lemma classify_colors_key_cong:
  assumes "\<forall>c\<in>set cs. lum c = lum' c"
  shows "classify_colors_by lum cs = classify_colors_by lum' cs"
proof -
  have "sort_key lum (filter is_neutral cs) = sort_key lum' (filter is_neutral cs)"
    using assms by (intro sort_key_cong_on) simp
  then show ?thesis
    by (simp add: classify_colors_by_def partition_loop_filter)
qed

text \<open>
  Claim C8, as the code has it.  The classifier is a function of its samples and of the
  luminance values of these samples.  The merger is a function of its two palettes and
  of the iteration order of sets, through the two lists it deduplicates only: two runs
  that list these in the same order return the same palette.  Under any two orders the
  primary, secondary and accent agree and the lengths of \<open>neutrals\<close> and \<open>all_colors\<close>
  agree; the entries agree as sets when the union fits the cap of 4, respectively 12.
\<close>

theorem merge_palettes_iteration_order:
  assumes "set_order_ok so1" "set_order_ok so2"
  shows "primary (merge_palettes so1 a b) = primary (merge_palettes so2 a b)
    \<and> secondary (merge_palettes so1 a b) = secondary (merge_palettes so2 a b)
    \<and> accent (merge_palettes so1 a b) = accent (merge_palettes so2 a b)
    \<and> length (neutrals (merge_palettes so1 a b)) = length (neutrals (merge_palettes so2 a b))
    \<and> length (all_colors (merge_palettes so1 a b)) = length (all_colors (merge_palettes so2 a b))
    \<and> (card (set (neutrals a) \<union> set (neutrals b)) \<le> 4 \<longrightarrow>
          set (neutrals (merge_palettes so1 a b)) = set (neutrals (merge_palettes so2 a b)))
    \<and> (card (set (all_colors a) \<union> set (all_colors b)) \<le> 12 \<longrightarrow>
          set (all_colors (merge_palettes so1 a b)) = set (all_colors (merge_palettes so2 a b)))
    \<and> (so1 (neutrals a @ neutrals b) = so2 (neutrals a @ neutrals b) \<longrightarrow>
        so1 (all_colors a @ all_colors b) = so2 (all_colors a @ all_colors b) \<longrightarrow>
          merge_palettes so1 a b = merge_palettes so2 a b)
    \<and> ((\<forall>c\<in>set cs. lum c = lum' c) \<longrightarrow> classify_colors_by lum cs = classify_colors_by lum' cs)"
proof -
  have n: "neutrals (merge_palettes so a b) = take 4 (so (neutrals a @ neutrals b))"
    and c: "all_colors (merge_palettes so a b) = take 12 (so (all_colors a @ all_colors b))"
    for so
    by (simp_all add: merge_palettes_def Let_def)
  note k1 = capped_order[OF assms(1)] and k2 = capped_order[OF assms(2)]
  have roles: "primary (merge_palettes so1 a b) = primary (merge_palettes so2 a b)"
    "secondary (merge_palettes so1 a b) = secondary (merge_palettes so2 a b)"
    "accent (merge_palettes so1 a b) = accent (merge_palettes so2 a b)"
    by (simp_all add: merge_palettes_def Let_def)
  have len: "length (neutrals (merge_palettes so1 a b)) = length (neutrals (merge_palettes so2 a b))"
    "length (all_colors (merge_palettes so1 a b)) = length (all_colors (merge_palettes so2 a b))"
    unfolding n c by (simp_all only: k1(2) k2(2))
  have sets: "card (set (neutrals a) \<union> set (neutrals b)) \<le> 4 \<Longrightarrow>
          set (neutrals (merge_palettes so1 a b)) = set (neutrals (merge_palettes so2 a b))"
    "card (set (all_colors a) \<union> set (all_colors b)) \<le> 12 \<Longrightarrow>
          set (all_colors (merge_palettes so1 a b)) = set (all_colors (merge_palettes so2 a b))"
    unfolding n c
    using k1(4)[of "neutrals a @ neutrals b" 4] k2(4)[of "neutrals a @ neutrals b" 4]
      k1(4)[of "all_colors a @ all_colors b" 12] k2(4)[of "all_colors a @ all_colors b" 12]
    by simp_all
  have same: "so1 (neutrals a @ neutrals b) = so2 (neutrals a @ neutrals b) \<Longrightarrow>
        so1 (all_colors a @ all_colors b) = so2 (all_colors a @ all_colors b) \<Longrightarrow>
          merge_palettes so1 a b = merge_palettes so2 a b"
    by (simp add: merge_palettes_def Let_def)
  from roles len sets same classify_colors_key_cong[of cs lum lum']
  show ?thesis by (intro conjI impI)
qed

text \<open>
  The order of the lists is not determined by the palettes.  Merging the fallback
  palette with itself lists the neutrals as \<open>#F5F5F5\<close>, \<open>#333333\<close> under one order and as
  \<open>#333333\<close>, \<open>#F5F5F5\<close> under another; an interpreter started with \<open>PYTHONHASHSEED=1\<close>
  gives the first and one started with \<open>PYTHONHASHSEED=0\<close> the second.
\<close>

theorem merge_palettes_order_counterexample:
  "set_order_ok remdups \<and> set_order_ok (rev \<circ> remdups)
   \<and> neutrals (merge_palettes remdups fallback_palette fallback_palette)
       = [''#F5F5F5'', ''#333333'']
   \<and> neutrals (merge_palettes (rev \<circ> remdups) fallback_palette fallback_palette)
       = [''#333333'', ''#F5F5F5'']
   \<and> merge_palettes remdups fallback_palette fallback_palette
       \<noteq> merge_palettes (rev \<circ> remdups) fallback_palette fallback_palette"
proof -
  have 1: "neutrals (merge_palettes remdups fallback_palette fallback_palette)
       = [''#F5F5F5'', ''#333333'']"
    by (simp add: merge_palettes_def fallback_palette_def)
  have 2: "neutrals (merge_palettes (rev \<circ> remdups) fallback_palette fallback_palette)
       = [''#333333'', ''#F5F5F5'']"
    by (simp add: merge_palettes_def fallback_palette_def)
  have "neutrals (merge_palettes remdups fallback_palette fallback_palette)
      \<noteq> neutrals (merge_palettes (rev \<circ> remdups) fallback_palette fallback_palette)"
    unfolding 1 2 by simp
  then have 3: "merge_palettes remdups fallback_palette fallback_palette
       \<noteq> merge_palettes (rev \<circ> remdups) fallback_palette fallback_palette"
    by auto
  from set_order_ok_remdups set_order_ok_rev_remdups 1 2 3 show ?thesis by (intro conjI)
qed

theorem merge_palettes_iteration_order_witness:
  "set_order_ok remdups \<and> set_order_ok (rev \<circ> remdups)
   \<and> primary (merge_palettes remdups fallback_palette fallback_palette)
       = primary (merge_palettes (rev \<circ> remdups) fallback_palette fallback_palette)
   \<and> card (set (neutrals fallback_palette) \<union> set (neutrals fallback_palette)) \<le> 4
   \<and> set (neutrals (merge_palettes remdups fallback_palette fallback_palette))
       = set (neutrals (merge_palettes (rev \<circ> remdups) fallback_palette fallback_palette))
   \<and> card (set (all_colors fallback_palette) \<union> set (all_colors fallback_palette)) \<le> 12
   \<and> set (all_colors (merge_palettes remdups fallback_palette fallback_palette))
       = set (all_colors (merge_palettes (rev \<circ> remdups) fallback_palette fallback_palette))
   \<and> luminance_key (200, 200, 210)
       = (if is_neutral (200, 200, 210) then luminance_key (200, 200, 210) else 0)
   \<and> luminance_key (10, 10, 10)
       = (if is_neutral (10, 10, 10) then luminance_key (10, 10, 10) else 0)
   \<and> classify_colors_by luminance_key [(200, 200, 210), (10, 10, 10)]
       = classify_colors_by (\<lambda>c. if is_neutral c then luminance_key c else 0)
           [(200, 200, 210), (10, 10, 10)]"
proof -
  have ok: "set_order_ok remdups" "set_order_ok (rev \<circ> remdups)"
    by (simp_all add: set_order_ok_def)
  have "length (neutrals fallback_palette) = 2" "length (all_colors fallback_palette) = 5"
    by (simp_all add: fallback_palette_def)
  with card_length[of "neutrals fallback_palette"] card_length[of "all_colors fallback_palette"]
  have c: "card (set (neutrals fallback_palette) \<union> set (neutrals fallback_palette)) \<le> 4"
    "card (set (all_colors fallback_palette) \<union> set (all_colors fallback_palette)) \<le> 12"
    by simp_all
  have k1: "luminance_key (200, 200, 210)
       = (if is_neutral (200, 200, 210) then luminance_key (200, 200, 210) else 0)"
    and k2: "luminance_key (10, 10, 10)
       = (if is_neutral (10, 10, 10) then luminance_key (10, 10, 10) else 0)"
    by (simp_all add: is_neutral_def)
  from k1 k2 have k: "\<forall>c\<in>set [(200, 200, 210), (10, 10, 10)].
         luminance_key c = (if is_neutral c then luminance_key c else 0)"
    by simp
  note t = merge_palettes_iteration_order[OF ok, of fallback_palette fallback_palette
      "[(200, 200, 210), (10, 10, 10)]" luminance_key
      "\<lambda>c. if is_neutral c then luminance_key c else 0"]
  from t have 1: "primary (merge_palettes remdups fallback_palette fallback_palette)
       = primary (merge_palettes (rev \<circ> remdups) fallback_palette fallback_palette)"
    by (rule conjunct1)
  from t c(1) have 2: "set (neutrals (merge_palettes remdups fallback_palette fallback_palette))
       = set (neutrals (merge_palettes (rev \<circ> remdups) fallback_palette fallback_palette))"
    by blast
  from t c(2) have 3: "set (all_colors (merge_palettes remdups fallback_palette fallback_palette))
       = set (all_colors (merge_palettes (rev \<circ> remdups) fallback_palette fallback_palette))"
    by blast
  from t k have 4: "classify_colors_by luminance_key [(200, 200, 210), (10, 10, 10)]
       = classify_colors_by (\<lambda>c. if is_neutral c then luminance_key c else 0)
           [(200, 200, 210), (10, 10, 10)]"
    by blast
  from ok 1 c 2 3 k1 k2 4 show ?thesis by (intro conjI)
qed

end
